theory Spec2Isabelle
  imports Main
begin

section \<open>Python string operations used by the schema filter\<close>

text \<open>
  Strings are lists of characters; the model covers code points below 256.
  \<open>isspace\<close> is Python's \<open>str.isspace\<close> on that range: the characters
  that \<open>str.strip()\<close> removes when called without an argument.
\<close>

definition newline :: char where
  "newline = CHR 0x0A"

definition backslash :: char where
  "backslash = CHR 0x5C"

definition isspace :: "char \<Rightarrow> bool" where
  "isspace c = (c \<in> set [CHR 0x09, CHR 0x0A, CHR 0x0B, CHR 0x0C, CHR 0x0D,
                          CHR 0x1C, CHR 0x1D, CHR 0x1E, CHR 0x1F, CHR 0x20,
                          CHR 0x85, CHR 0xA0])"

definition lstrip :: "string \<Rightarrow> string" where
  "lstrip s = dropWhile isspace s"

definition rstrip :: "string \<Rightarrow> string" where
  "rstrip s = rev (dropWhile isspace (rev s))"

definition strip :: "string \<Rightarrow> string" where
  "strip s = rstrip (lstrip s)"

definition startswith :: "string \<Rightarrow> string \<Rightarrow> bool" where
  "startswith s p = (take (length p) s = p)"

text \<open>\<open>s.split("\n")\<close>: the result is never empty, \<open>"".split("\n") == [""]\<close>.\<close>

fun split_nl :: "string \<Rightarrow> string list" where
  "split_nl [] = [[]]"
| "split_nl (c # cs) =
     (if c = newline then [] # split_nl cs
      else (case split_nl cs of
              [] \<Rightarrow> [[c]]
            | l # ls \<Rightarrow> (c # l) # ls))"

text \<open>\<open>"\n".join(lines)\<close>.\<close>

fun join_nl :: "string list \<Rightarrow> string" where
  "join_nl [] = []"
| "join_nl [l] = l"
| "join_nl (l # l' # ls) = l @ newline # join_nl (l' # ls)"

subsection \<open>The filter of \<open>up\<close> (manage\_db.py, lines 71-74)\<close>

text \<open>
  \<^verbatim>\<open>cleaned_sql = "\n".join(
      line for line in sql_script.split("\n") if not line.strip().startswith("\\"))\<close>
\<close>

definition cleaned_sql :: "string \<Rightarrow> string" where
  "cleaned_sql sql_script =
     join_nl (filter (\<lambda>line. \<not> startswith (strip line) [backslash]) (split_nl sql_script))"

subsection \<open>The filter as the specification words it\<close>

text \<open>
  A line is a meta-command line when its first non-whitespace character is the
  escape marker. This definition follows the specification, not the code; the
  two are compared below.
\<close>

definition first_nonspace :: "string \<Rightarrow> char option" where
  "first_nonspace l = (case dropWhile isspace l of [] \<Rightarrow> None | c # _ \<Rightarrow> Some c)"

definition spec_meta_line :: "string \<Rightarrow> bool" where
  "spec_meta_line l = (first_nonspace l = Some backslash)"

section \<open>SQL composition (psycopg2.sql)\<close>

text \<open>
  The values of \<open>psycopg2.sql\<close> that the tool builds: a literal snippet
  \<open>SQL\<close>, an \<open>Identifier\<close> and their composition. The tool never renders the
  database name into the text of a snippet itself.
\<close>

datatype composable = SQL string | Identifier string | Composed "composable list"

definition dquote :: char where
  "dquote = CHR 0x22"

text \<open>
  The library renders an identifier between double quotes, with every double
  quote of the name doubled.
\<close>

definition escape_ident :: "string \<Rightarrow> string" where
  "escape_ident n = concat (map (\<lambda>c. if c = dquote then [dquote, dquote] else [c]) n)"

definition quote_ident :: "string \<Rightarrow> string" where
  "quote_ident n = dquote # escape_ident n @ [dquote]"

fun as_string :: "composable \<Rightarrow> string" where
  "as_string (SQL s) = s"
| "as_string (Identifier n) = quote_ident n"
| "as_string (Composed cs) = concat (map as_string cs)"

text \<open>
  \<^verbatim>\<open>sql.SQL("CREATE DATABASE {}").format(sql.Identifier(args.dbname))\<close> (up, line 48)
  and \<^verbatim>\<open>sql.SQL("DROP DATABASE IF EXISTS {}").format(sql.Identifier(args.dbname))\<close>
  (down, lines 104-106): \<open>format\<close> yields the literal text before the placeholder
  followed by the argument.
\<close>

definition create_database_sql :: "string \<Rightarrow> composable" where
  "create_database_sql dbname = Composed [SQL ''CREATE DATABASE '', Identifier dbname]"

definition drop_database_sql :: "string \<Rightarrow> composable" where
  "drop_database_sql dbname = Composed [SQL ''DROP DATABASE IF EXISTS '', Identifier dbname]"

subsection \<open>How the server reads a quoted identifier\<close>

text \<open>
  The lexical rule of SQL for a quoted identifier, used to state that a quoted
  name is read back as that name and nothing else: after the opening quote, a
  doubled quote stands for one quote and a single quote ends the identifier.
  The result is the name and the rest of the text.
\<close>

fun read_quoted :: "string \<Rightarrow> (string \<times> string) option" where
  "read_quoted [] = None"
| "read_quoted [c] = (if c = dquote then Some ([], []) else None)"
| "read_quoted (c # d # cs) =
     (if c = dquote then
        (if d = dquote then map_option (\<lambda>(n, r). (dquote # n, r)) (read_quoted cs)
         else Some ([], d # cs))
      else map_option (\<lambda>(n, r). (c # n, r)) (read_quoted (d # cs)))"

definition read_ident :: "string \<Rightarrow> (string \<times> string) option" where
  "read_ident s = (case s of [] \<Rightarrow> None | c # cs \<Rightarrow> if c = dquote then read_quoted cs else None)"

section \<open>The database server and the process state of manage\_db.py\<close>

datatype level = INFO | WARNING | ERROR

text \<open>The log lines of manage\_db.py, one constructor for each logging call.\<close>

datatype db_msg =
    Ensuring_exists string
  | Database_created string
  | Already_exists_skipping string
  | Create_error
  | Applying_schema string
  | Sql_file_not_found
  | Applied_successfully
  | Schema_error
  | Could_not_connect string
  | Ensure_running
  | Dropping string
  | Executing string
  | Dropped_successfully string
  | Down_error

datatype pg_error = OperationalError | DuplicateDatabase | DatabaseError

text \<open>A statement handed to \<open>cursor.execute\<close>: a composed value or plain text.\<close>

datatype query = Composable composable | Text string

text \<open>
  The calls the tool makes on the driver, in order. A connection is identified by
  the name of the database it is bound to.
\<close>

datatype pg_call =
    Connect string
  | Set_autocommit string bool
  | Execute string query
  | Commit string
  | Rollback string
  | Close string

text \<open>
  The server is outside the repository. Its state is the set of databases, the
  committed content of each of them (of an abstract type \<open>'st\<close>), the
  uncommitted content of the transaction open on the connection to each of them
  (\<open>None\<close> when no transaction is open), what a script does when executed, and
  the conditions under which the server refuses a request.

  \<open>run_script srv text c\<close> is what executing \<open>text\<close> does inside a transaction
  on a database whose committed content is \<open>c\<close>. The first component is the
  content that the script has made durable by its own transaction-control
  statements (a \<open>COMMIT\<close> inside the text) by the time its execution ends; it is
  \<open>c\<close> itself when the script has none. The second component is the content
  that a commit after the execution makes durable, or \<open>None\<close> when a statement
  of the script failed.
\<close>

record 'st pg_server =
  reachable :: bool
  databases :: "string set"
  create_permitted :: bool
  drop_permitted :: bool
  commit_accepted :: bool
  template :: 'st
  content :: "string \<Rightarrow> 'st"
  pending :: "string \<Rightarrow> 'st option"
  run_script :: "string \<Rightarrow> 'st \<Rightarrow> 'st \<times> 'st option"

definition pg_connect :: "'st pg_server \<Rightarrow> string \<Rightarrow> bool" where
  "pg_connect srv d = (reachable srv \<and> d \<in> databases srv)"

text \<open>
  \<open>CREATE DATABASE\<close> with the name as a quoted identifier. The server rejects
  a zero-length identifier before anything else.
\<close>

definition pg_create_database :: "'st pg_server \<Rightarrow> string \<Rightarrow> pg_error + 'st pg_server" where
  "pg_create_database srv n =
     (if n = [] then Inl DatabaseError
      else if \<not> create_permitted srv then Inl DatabaseError
      else if n \<in> databases srv then Inl DuplicateDatabase
      else Inr (srv\<lparr>databases := insert n (databases srv),
                    content := (content srv)(n := template srv)\<rparr>))"

text \<open>
  \<open>DROP DATABASE IF EXISTS\<close>, issued on the connection \<open>conn\<close>: a zero-length
  identifier is rejected; an absent database is no error; the database of the
  connection itself cannot be dropped.
\<close>

definition pg_drop_database_if_exists ::
  "'st pg_server \<Rightarrow> string \<Rightarrow> string \<Rightarrow> pg_error + 'st pg_server" where
  "pg_drop_database_if_exists srv conn n =
     (if n = [] then Inl DatabaseError
      else if n \<notin> databases srv then Inr srv
      else if n = conn \<or> \<not> drop_permitted srv then Inl DatabaseError
      else Inr (srv\<lparr>databases := databases srv - {n}\<rparr>))"

text \<open>
  Executing a script text on the connection to the database \<open>conn\<close>. What the
  script itself committed is durable at once. With autocommit off the rest stays
  in the transaction that the execution opened: the result of the script when
  every statement succeeded, nothing beyond the durable part when one failed.
  With autocommit on the result of a successful script is durable at once.
\<close>

definition pg_execute ::
  "'st pg_server \<Rightarrow> string \<Rightarrow> bool \<Rightarrow> string \<Rightarrow> (pg_error + unit) \<times> 'st pg_server" where
  "pg_execute srv conn autocommit text =
     (case run_script srv text (content srv conn) of
        (durable, None) \<Rightarrow>
          (Inl DatabaseError,
           srv\<lparr>content := (content srv)(conn := durable),
               pending := (pending srv)(conn := if autocommit then None else Some durable)\<rparr>)
      | (durable, Some st) \<Rightarrow>
          (Inr (),
           if autocommit then srv\<lparr>content := (content srv)(conn := st)\<rparr>
           else srv\<lparr>content := (content srv)(conn := durable),
                    pending := (pending srv)(conn := Some st)\<rparr>))"

text \<open>
  \<open>commit\<close> makes the content of the open transaction durable and ends it,
  unless the server refuses the commit; \<open>rollback\<close> ends the open transaction
  and discards its content.
\<close>

definition pg_commit :: "'st pg_server \<Rightarrow> string \<Rightarrow> pg_error + 'st pg_server" where
  "pg_commit srv conn =
     (if \<not> commit_accepted srv then Inl DatabaseError
      else Inr (case pending srv conn of
                  None \<Rightarrow> srv
                | Some st \<Rightarrow> srv\<lparr>content := (content srv)(conn := st),
                                 pending := (pending srv)(conn := None)\<rparr>))"

definition pg_rollback :: "'st pg_server \<Rightarrow> string \<Rightarrow> 'st pg_server" where
  "pg_rollback srv conn = srv\<lparr>pending := (pending srv)(conn := None)\<rparr>"

record args =
  dbname :: string
  user :: string
  password :: string
  host :: string
  port :: int

text \<open>
  The process state: the server, the file \<open>postgres-init.sql\<close> (\<open>None\<close> when it
  does not exist), the driver calls made so far and the lines logged so far.
\<close>

record 'st world =
  server :: "'st pg_server"
  sql_file :: "string option"
  calls :: "pg_call list"
  logs :: "(level \<times> db_msg) list"

definition call :: "pg_call \<Rightarrow> 'st world \<Rightarrow> 'st world" where
  "call c w = w\<lparr>calls := calls w @ [c]\<rparr>"

definition log :: "level \<Rightarrow> db_msg \<Rightarrow> 'st world \<Rightarrow> 'st world" where
  "log lv m w = w\<lparr>logs := logs w @ [(lv, m)]\<rparr>"

text \<open>
  The server after the transaction on the connection to \<open>conn\<close> has ended with
  \<open>c\<close> as the durable content of that database.
\<close>

definition settled :: "'st pg_server \<Rightarrow> string \<Rightarrow> 'st \<Rightarrow> 'st pg_server" where
  "settled srv conn c =
     srv\<lparr>content := (content srv)(conn := c), pending := (pending srv)(conn := None)\<rparr>"

text \<open>\<open>conn.rollback()\<close>: the call, and what it does on the server.\<close>

definition rollback :: "string \<Rightarrow> 'st world \<Rightarrow> 'st world" where
  "rollback conn w = (call (Rollback conn) w)\<lparr>server := pg_rollback (server w) conn\<rparr>"

section \<open>manage\_db.py\<close>

text \<open>
  \<open>get_connection\<close> (lines 13-32). \<open>Inl 1\<close> is \<open>sys.exit(1)\<close>; the connection
  returned is the name of its database.
\<close>

definition get_connection ::
  "args \<Rightarrow> string option \<Rightarrow> 'st world \<Rightarrow> (nat + string) \<times> 'st world" where
  "get_connection a db_override w =
     (let d = (case db_override of
                 None \<Rightarrow> dbname a
               | Some ov \<Rightarrow> if ov = [] then dbname a else ov);
          w1 = call (Connect d) w
      in if pg_connect (server w1) d then (Inr d, w1)
         else (Inl 1, log ERROR Ensure_running (log ERROR (Could_not_connect d) w1)))"

text \<open>\<open>up\<close>, step 1 (lines 39-59): create the database on the admin connection.\<close>

definition ensure_database :: "args \<Rightarrow> 'st world \<Rightarrow> (nat + unit) \<times> 'st world" where
  "ensure_database a w =
     (case get_connection a (Some ''postgres'') (log INFO (Ensuring_exists (dbname a)) w) of
        (Inl code, w1) \<Rightarrow> (Inl code, w1)
      | (Inr conn_admin, w1) \<Rightarrow>
          (let w2 = call (Execute conn_admin (Composable (create_database_sql (dbname a))))
                      (call (Set_autocommit conn_admin True) w1)
           in case pg_create_database (server w2) (dbname a) of
                Inr srv \<Rightarrow>
                  (Inr (), call (Close conn_admin)
                             (log INFO (Database_created (dbname a)) (w2\<lparr>server := srv\<rparr>)))
              | Inl e \<Rightarrow>
                  if e = DuplicateDatabase then
                    (Inr (), call (Close conn_admin)
                               (log INFO (Already_exists_skipping (dbname a)) w2))
                  else (Inl 1, call (Close conn_admin) (log ERROR Create_error w2))))"

text \<open>
  \<open>up\<close>, step 2 (lines 61-88): read the file, clean it, execute it on a
  connection to the target database with autocommit off, then commit; on any
  error roll back, log and exit. The connection is closed after a commit or a
  rollback, when no transaction is open on it.
\<close>

definition apply_schema :: "args \<Rightarrow> 'st world \<Rightarrow> (nat + unit) \<times> 'st world" where
  "apply_schema a w =
     (let w0 = log INFO (Applying_schema (dbname a)) w
      in case sql_file w0 of
           None \<Rightarrow> (Inl 1, log ERROR Sql_file_not_found w0)
         | Some sql_script \<Rightarrow>
             (case get_connection a None w0 of
                (Inl code, w1) \<Rightarrow> (Inl code, w1)
              | (Inr conn_target, w1) \<Rightarrow>
                  (let w2 = call (Execute conn_target (Text (cleaned_sql sql_script)))
                              (call (Set_autocommit conn_target False) w1)
                   in case pg_execute (server w2) conn_target False (cleaned_sql sql_script) of
                        (Inl e, srv) \<Rightarrow>
                          (Inl 1, call (Close conn_target)
                                    (log ERROR Schema_error
                                       (rollback conn_target (w2\<lparr>server := srv\<rparr>))))
                      | (Inr u, srv) \<Rightarrow>
                          (let w3 = call (Commit conn_target) (w2\<lparr>server := srv\<rparr>)
                           in case pg_commit (server w3) conn_target of
                                Inr srv' \<Rightarrow>
                                  (Inr (), call (Close conn_target)
                                     (log INFO Applied_successfully (w3\<lparr>server := srv'\<rparr>)))
                              | Inl e \<Rightarrow>
                                  (Inl 1, call (Close conn_target)
                                     (log ERROR Schema_error (rollback conn_target w3)))))))"

definition up :: "args \<Rightarrow> 'st world \<Rightarrow> (nat + unit) \<times> 'st world" where
  "up a w =
     (case ensure_database a w of
        (Inl code, w1) \<Rightarrow> (Inl code, w1)
      | (Inr _, w1) \<Rightarrow> apply_schema a w1)"

text \<open>\<open>down\<close> (lines 91-114).\<close>

definition down :: "args \<Rightarrow> 'st world \<Rightarrow> (nat + unit) \<times> 'st world" where
  "down a w =
     (case get_connection a (Some ''postgres'') (log INFO (Dropping (dbname a)) w) of
        (Inl code, w1) \<Rightarrow> (Inl code, w1)
      | (Inr conn_admin, w1) \<Rightarrow>
          (let command = drop_database_sql (dbname a);
               w2 = call (Execute conn_admin (Composable command))
                      (log INFO (Executing (as_string command))
                         (call (Set_autocommit conn_admin True) w1))
           in case pg_drop_database_if_exists (server w2) conn_admin (dbname a) of
                Inr srv \<Rightarrow>
                  (Inr (), call (Close conn_admin)
                             (log INFO (Dropped_successfully (dbname a)) (w2\<lparr>server := srv\<rparr>)))
              | Inl e \<Rightarrow> (Inl 1, call (Close conn_admin) (log ERROR Down_error w2))))"

text \<open>
  The main block (lines 149-152). The result is the exit code of the process:
  0 when the action returns, the argument of \<open>sys.exit\<close> otherwise.
\<close>

datatype db_action = Up | Down

definition main_db :: "db_action \<Rightarrow> args \<Rightarrow> 'st world \<Rightarrow> nat \<times> 'st world" where
  "main_db action a w =
     (case (if action = Up then up a w else down a w) of
        (Inl code, w1) \<Rightarrow> (code, w1)
      | (Inr _, w1) \<Rightarrow> (0, w1))"

text \<open>The driver calls and the log lines added between two states.\<close>

definition new_calls :: "'st world \<Rightarrow> 'st world \<Rightarrow> pg_call list" where
  "new_calls w w1 = drop (length (calls w)) (calls w1)"

definition new_logs :: "'st world \<Rightarrow> 'st world \<Rightarrow> (level \<times> db_msg) list" where
  "new_logs w w1 = drop (length (logs w)) (logs w1)"

section \<open>The messaging cluster and the process state of manage\_topics.py\<close>

datatype new_topic = NewTopic (name: string) (num_partitions: int) (replication_factor: int)

datatype kafka_error = TopicAlreadyExistsError | UnknownTopicOrPartitionError | KafkaError

text \<open>The log lines of manage\_topics.py, one constructor for each logging call.\<close>

datatype topic_msg =
    Topic_already_exists string
  | No_new_topics
  | Topic_created string
  | One_or_more_already_exist
  | Failed_to_create
  | Deletion_request_sent string
  | One_or_more_do_not_exist
  | Failed_to_delete
  | An_error_occurred

text \<open>The calls the tool makes on the admin client, in order.\<close>

datatype kafka_call =
    New_client
  | List_topics
  | Create_topics "new_topic list" bool
  | Delete_topics "string list"
  | Close_client

text \<open>
  The cluster is outside the repository. Its state is the set of topics, and
  whether it can be reached and serves each kind of request. A create request
  creates the topics of the batch that are absent and reports an error when one of
  them exists; a delete request removes the topics of the batch that exist and
  reports an error when one of them is unknown. The client raises what the
  cluster reports.
\<close>

record cluster =
  available :: bool
  topics :: "string set"
  list_ok :: bool
  create_ok :: bool
  delete_ok :: bool

definition kafka_create_topics :: "cluster \<Rightarrow> new_topic list \<Rightarrow> (kafka_error + unit) \<times> cluster" where
  "kafka_create_topics c new_topics =
     (if \<not> create_ok c then (Inl KafkaError, c)
      else ((if \<exists>t \<in> set new_topics. name t \<in> topics c
             then Inl TopicAlreadyExistsError else Inr ()),
            c\<lparr>topics := topics c \<union> set (map name new_topics)\<rparr>))"

definition kafka_delete_topics :: "cluster \<Rightarrow> string list \<Rightarrow> (kafka_error + unit) \<times> cluster" where
  "kafka_delete_topics c ns =
     (if \<not> delete_ok c then (Inl KafkaError, c)
      else ((if \<exists>n \<in> set ns. n \<notin> topics c
             then Inl UnknownTopicOrPartitionError else Inr ()),
            c\<lparr>topics := topics c - set ns\<rparr>))"

record kworld =
  cluster :: cluster
  kcalls :: "kafka_call list"
  klogs :: "(level \<times> topic_msg) list"

definition kcall :: "kafka_call \<Rightarrow> kworld \<Rightarrow> kworld" where
  "kcall c w = w\<lparr>kcalls := kcalls w @ [c]\<rparr>"

definition klog :: "level \<Rightarrow> topic_msg \<Rightarrow> kworld \<Rightarrow> kworld" where
  "klog lv m w = w\<lparr>klogs := klogs w @ [(lv, m)]\<rparr>"

section \<open>manage\_topics.py\<close>

text \<open>
  The loop of \<open>create_topics\<close> (lines 38-43): the accumulator is
  \<open>topics_to_create\<close>, the state carries the warnings logged.
\<close>

fun select_topics ::
  "string set \<Rightarrow> int \<Rightarrow> int \<Rightarrow> string list \<Rightarrow> new_topic list \<Rightarrow> kworld
   \<Rightarrow> new_topic list \<times> kworld" where
  "select_topics existing_topics np rf [] topics_to_create w = (topics_to_create, w)"
| "select_topics existing_topics np rf (n # ns) topics_to_create w =
     (if n \<in> existing_topics then
        select_topics existing_topics np rf ns topics_to_create
          (klog WARNING (Topic_already_exists n) w)
      else
        select_topics existing_topics np rf ns (topics_to_create @ [NewTopic n np rf]) w)"

fun log_created :: "new_topic list \<Rightarrow> kworld \<Rightarrow> kworld" where
  "log_created [] w = w"
| "log_created (t # ts) w = log_created ts (klog INFO (Topic_created (name t)) w)"

text \<open>
  \<open>create_topics\<close> (lines 28-56). \<open>Inl\<close> is an exception that leaves the
  function: only \<open>list_topics\<close> is called outside the \<open>try\<close>.
\<close>

definition create_topics ::
  "kworld \<Rightarrow> string list \<Rightarrow> int \<Rightarrow> int \<Rightarrow> (kafka_error + unit) \<times> kworld" where
  "create_topics w topic_names np rf =
     (let w1 = kcall List_topics w
      in if \<not> list_ok (cluster w1) then (Inl KafkaError, w1)
         else
           (case select_topics (topics (cluster w1)) np rf topic_names [] w1 of
              (topics_to_create, w2) \<Rightarrow>
                if topics_to_create = [] then (Inr (), klog INFO No_new_topics w2)
                else
                  (let w3 = kcall (Create_topics topics_to_create False) w2
                   in case kafka_create_topics (cluster w3) topics_to_create of
                        (Inr _, c) \<Rightarrow>
                          (Inr (), log_created topics_to_create (w3\<lparr>cluster := c\<rparr>))
                      | (Inl e, c) \<Rightarrow>
                          if e = TopicAlreadyExistsError then
                            (Inr (), klog WARNING One_or_more_already_exist (w3\<lparr>cluster := c\<rparr>))
                          else
                            (Inr (), klog ERROR Failed_to_create (w3\<lparr>cluster := c\<rparr>)))))"

fun log_deletion_sent :: "string list \<Rightarrow> kworld \<Rightarrow> kworld" where
  "log_deletion_sent [] w = w"
| "log_deletion_sent (t # ts) w = log_deletion_sent ts (klog INFO (Deletion_request_sent t) w)"

text \<open>\<open>delete_topics\<close> (lines 59-70): every exception is caught.\<close>

definition delete_topics :: "kworld \<Rightarrow> string list \<Rightarrow> kworld" where
  "delete_topics w topic_names =
     (let w1 = kcall (Delete_topics topic_names) w
      in case kafka_delete_topics (cluster w1) topic_names of
           (Inr _, c) \<Rightarrow> log_deletion_sent topic_names (w1\<lparr>cluster := c\<rparr>)
         | (Inl e, c) \<Rightarrow>
             if e = UnknownTopicOrPartitionError then
               klog WARNING One_or_more_do_not_exist (w1\<lparr>cluster := c\<rparr>)
             else klog ERROR Failed_to_delete (w1\<lparr>cluster := c\<rparr>))"

text \<open>The environment variables read at import time (lines 23-25).\<close>

record kafka_env =
  KAFKA_BOOTSTRAP_SERVERS :: "string option"
  KAFKA_USER :: "string option"
  KAFKA_PASSWORD :: "string option"

text \<open>Python truth of an optional string: \<open>None\<close> and \<open>""\<close> are false.\<close>

definition truthy :: "string option \<Rightarrow> bool" where
  "truthy v = (case v of None \<Rightarrow> False | Some s \<Rightarrow> s \<noteq> [])"

datatype topic_action = Create | Delete

definition topics_list :: "string list" where
  "topics_list =
     [''websocket_fanout'', ''processing_fanout'', ''ecommerce_events'',
      ''ecommerce_processing_fanout'', ''product-updates'', ''recommendations'',
      ''inventory_updates'', ''inventory-events'', ''shopping-cart-events'',
      ''basket-patterns'', ''order-events'', ''product-recommendations'']"

text \<open>
  The main block (lines 73-126). The result is the exit code of the process: 1
  when the \<open>ValueError\<close> of line 76 ends it, 0 otherwise, since every exception
  after that is caught at line 122 and nothing calls \<open>sys.exit\<close>. The client is
  closed only if it was constructed.
\<close>

definition main_topics :: "kafka_env \<Rightarrow> topic_action \<Rightarrow> kworld \<Rightarrow> nat \<times> kworld" where
  "main_topics env action w =
     (if \<not> (truthy (KAFKA_BOOTSTRAP_SERVERS env) \<and> truthy (KAFKA_USER env)
             \<and> truthy (KAFKA_PASSWORD env))
      then (1, w)
      else
        (let w1 = kcall New_client w
         in if \<not> available (cluster w1) then (0, klog ERROR An_error_occurred w1)
            else if action = Create then
              (case create_topics w1 topics_list 1 1 of
                 (Inr _, w2) \<Rightarrow> (0, kcall Close_client w2)
               | (Inl e, w2) \<Rightarrow> (0, kcall Close_client (klog ERROR An_error_occurred w2)))
            else (0, kcall Close_client (delete_topics w1 topics_list))))"

definition new_kcalls :: "kworld \<Rightarrow> kworld \<Rightarrow> kafka_call list" where
  "new_kcalls w w1 = drop (length (kcalls w)) (kcalls w1)"

definition new_klogs :: "kworld \<Rightarrow> kworld \<Rightarrow> (level \<times> topic_msg) list" where
  "new_klogs w w1 = drop (length (klogs w)) (klogs w1)"

section \<open>Call sequences and example states\<close>

text \<open>The driver calls of the three stages, named for the statements below.\<close>

definition admin_calls :: "args \<Rightarrow> pg_call list" where
  "admin_calls a =
     [Connect ''postgres'', Set_autocommit ''postgres'' True,
      Execute ''postgres'' (Composable (create_database_sql (dbname a))), Close ''postgres'']"

definition schema_calls :: "args \<Rightarrow> string \<Rightarrow> pg_call list" where
  "schema_calls a script =
     [Connect (dbname a), Set_autocommit (dbname a) False,
      Execute (dbname a) (Text (cleaned_sql script))]"

definition drop_calls :: "args \<Rightarrow> pg_call list" where
  "drop_calls a =
     [Connect ''postgres'', Set_autocommit ''postgres'' True,
      Execute ''postgres'' (Composable (drop_database_sql (dbname a))), Close ''postgres'']"

fun is_commit :: "pg_call \<Rightarrow> bool" where
  "is_commit (Commit d) = True"
| "is_commit c = False"

fun is_rollback :: "pg_call \<Rightarrow> bool" where
  "is_rollback (Rollback d) = True"
| "is_rollback c = False"

text \<open>The composed statements among a list of calls, in order.\<close>

fun composed_statements :: "pg_call list \<Rightarrow> composable list" where
  "composed_statements [] = []"
| "composed_statements (Execute c (Composable q) # cs) = q # composed_statements cs"
| "composed_statements (c # cs) = composed_statements cs"

text \<open>
  Example states. The content of a database is the list of the texts committed
  to it. The example server accepts every script and no script commits by
  itself; \<open>failing_world\<close> rejects every script, \<open>denied_world\<close> refuses to
  create databases.
\<close>

definition demo_args :: args where
  "demo_args = \<lparr>dbname = ''ecommerce'', user = ''app'', password = ''secret'',
                host = ''localhost'', port = 5432\<rparr>"

definition demo_script :: string where
  "demo_script = backslash # ''c ecommerce'' @ newline # ''INSERT INTO t VALUES (1);''"

definition fresh_server :: "string list pg_server" where
  "fresh_server =
     \<lparr>reachable = True, databases = {''postgres''}, create_permitted = True,
      drop_permitted = True, commit_accepted = True, template = [],
      content = (\<lambda>d. []), pending = (\<lambda>d. None),
      run_script = (\<lambda>s st. (st, Some (st @ [s])))\<rparr>"

definition fresh_world :: "string list world" where
  "fresh_world = \<lparr>server = fresh_server, sql_file = Some demo_script, calls = [], logs = []\<rparr>"

definition existing_world :: "string list world" where
  "existing_world =
     fresh_world\<lparr>server := fresh_server\<lparr>databases := {''postgres'', ''ecommerce''}\<rparr>\<rparr>"

definition denied_world :: "string list world" where
  "denied_world = fresh_world\<lparr>server := fresh_server\<lparr>create_permitted := False\<rparr>\<rparr>"

definition failing_world :: "string list world" where
  "failing_world = fresh_world\<lparr>server := fresh_server\<lparr>run_script := (\<lambda>s st. (st, None))\<rparr>\<rparr>"

definition offline_world :: "string list world" where
  "offline_world = fresh_world\<lparr>server := fresh_server\<lparr>reachable := False\<rparr>\<rparr>"

definition demo_cluster :: cluster where
  "demo_cluster =
     \<lparr>available = True, topics = {''orders''}, list_ok = True, create_ok = True,
      delete_ok = True\<rparr>"

definition demo_kworld :: kworld where
  "demo_kworld = \<lparr>cluster = demo_cluster, kcalls = [], klogs = []\<rparr>"

definition offline_kworld :: kworld where
  "offline_kworld = demo_kworld\<lparr>cluster := demo_cluster\<lparr>available := False\<rparr>\<rparr>"

definition demo_env :: kafka_env where
  "demo_env = \<lparr>KAFKA_BOOTSTRAP_SERVERS = Some ''broker:9092'', KAFKA_USER = Some ''admin'',
               KAFKA_PASSWORD = Some ''secret''\<rparr>"

text \<open>The plain-text statements among a list of calls, in order.\<close>

fun text_statements :: "pg_call list \<Rightarrow> string list" where
  "text_statements [] = []"
| "text_statements (Execute c (Text q) # cs) = q # text_statements cs"
| "text_statements (c # cs) = text_statements cs"

text \<open>Arguments whose database name needs quoting and contains a double quote.\<close>

definition quoting_args :: args where
  "quoting_args = demo_args\<lparr>dbname := ''my-Db'' @ dquote # ''; DROP DATABASE x; --''\<rparr>"

text \<open>
  What a failed schema step leaves as the content of database \<open>d\<close>: what the
  script itself made durable, or the content as it was when there is no script.
\<close>

definition durable_content :: "'st world \<Rightarrow> string \<Rightarrow> 'st" where
  "durable_content w d =
     (case sql_file w of
        None \<Rightarrow> content (server w) d
      | Some script \<Rightarrow> fst (run_script (server w) (cleaned_sql script) (content (server w) d)))"

text \<open>
  A script that commits by itself and then fails, and an example of how a server
  executes a script line by line: \<open>COMMIT;\<close> makes the lines accepted so far
  durable, the insert into the table \<open>nope\<close>, which does not exist, fails, and
  every other line is accepted.
\<close>

definition commit_script :: string where
  "commit_script =
     ''CREATE TABLE a (x int);'' @ newline # ''COMMIT;'' @ newline
       # ''INSERT INTO nope VALUES (1);''"

fun demo_exec :: "string list \<Rightarrow> string list \<Rightarrow> string list \<Rightarrow> string list \<times> string list option" where
  "demo_exec [] durable pend = (durable, Some pend)"
| "demo_exec (l # ls) durable pend =
     (if l = ''COMMIT;'' then demo_exec ls pend pend
      else if l = ''INSERT INTO nope VALUES (1);'' then (durable, None)
      else demo_exec ls durable (pend @ [l]))"

definition committing_world :: "string list world" where
  "committing_world =
     \<lparr>server = fresh_server\<lparr>run_script := (\<lambda>s st. demo_exec (split_nl s) st st)\<rparr>,
      sql_file = Some commit_script, calls = [], logs = []\<rparr>"

text \<open>Arguments with the empty database name, as \<open>-d ''\<close> gives.\<close>

definition empty_name_args :: args where
  "empty_name_args = demo_args\<lparr>dbname := []\<rparr>"

section \<open>Properties of the schema filter\<close>

lemma split_nl_nonempty: "split_nl s \<noteq> []"
  by (induction s) (auto split: list.splits)

lemma join_nl_Cons: "join_nl (l # ls) = (if ls = [] then l else l @ newline # join_nl ls)"
  by (cases ls) simp_all

lemma join_split_nl: "join_nl (split_nl s) = s"
proof (induction s)
  case Nil
  show ?case by simp
next
  case (Cons c cs)
  obtain l ls where sp: "split_nl cs = l # ls"
    using split_nl_nonempty [of cs] by (cases "split_nl cs") auto
  from Cons sp show ?case
    by (auto simp: join_nl_Cons split: if_splits)
qed

lemma split_nl_no_newline: "l \<in> set (split_nl s) \<Longrightarrow> newline \<notin> set l"
proof (induction s arbitrary: l)
  case Nil
  then show ?case by simp
next
  case (Cons c cs)
  obtain k ks where sp: "split_nl cs = k # ks"
    using split_nl_nonempty [of cs] by (cases "split_nl cs") auto
  show ?case
  proof (cases "c = newline")
    case True
    with Cons show ?thesis by auto
  next
    case False
    with Cons.prems sp have "l = c # k \<or> l \<in> set ks" by auto
    then show ?thesis
    proof
      assume "l = c # k"
      moreover have "newline \<notin> set k" using Cons.IH [of k] sp by simp
      ultimately show ?thesis using False by auto
    next
      assume "l \<in> set ks"
      then show ?thesis using Cons.IH [of l] sp by simp
    qed
  qed
qed

lemma split_nl_line_append:
  "newline \<notin> set l \<Longrightarrow> split_nl (l @ newline # rest) = l # split_nl rest"
  by (induction l) auto

lemma split_nl_line: "newline \<notin> set l \<Longrightarrow> split_nl l = [l]"
  by (induction l) auto

lemma split_join_nl:
  "ls \<noteq> [] \<Longrightarrow> \<forall>l \<in> set ls. newline \<notin> set l \<Longrightarrow> split_nl (join_nl ls) = ls"
proof (induction ls rule: join_nl.induct)
  case 1
  then show ?case by simp
next
  case (2 l)
  then show ?case by (simp add: split_nl_line)
next
  case (3 l l' ls)
  then show ?case by (simp add: split_nl_line_append)
qed

lemma strip_starts:
  "startswith (strip l) [backslash] \<longleftrightarrow> spec_meta_line l"
proof (cases "dropWhile isspace l")
  case Nil
  then show ?thesis
    by (simp add: startswith_def strip_def lstrip_def rstrip_def spec_meta_line_def
        first_nonspace_def del: dropWhile_eq_Nil_conv)
next
  case (Cons c r)
  have "\<not> isspace c"
    using Cons hd_dropWhile [of isspace l] by auto
  then have "rstrip (c # r) = c # rev (dropWhile isspace (rev r))"
    by (simp add: rstrip_def dropWhile_append3)
  with Cons show ?thesis
    by (simp add: startswith_def strip_def lstrip_def spec_meta_line_def first_nonspace_def)
qed

lemma cleaned_sql_spec:
  "cleaned_sql s = join_nl (filter (\<lambda>l. \<not> spec_meta_line l) (split_nl s))"
  by (simp add: cleaned_sql_def strip_starts)

lemma empty_not_meta: "\<not> spec_meta_line []"
  by (simp add: spec_meta_line_def first_nonspace_def)

lemma cleaned_sql_idem: "cleaned_sql (cleaned_sql s) = cleaned_sql s"
proof (cases "filter (\<lambda>l. \<not> spec_meta_line l) (split_nl s)")
  case Nil
  then show ?thesis by (simp add: cleaned_sql_spec empty_not_meta)
next
  case (Cons k ks)
  let ?kept = "filter (\<lambda>l. \<not> spec_meta_line l) (split_nl s)"
  have nl: "\<forall>l \<in> set ?kept. newline \<notin> set l"
    using split_nl_no_newline by auto
  have "split_nl (join_nl ?kept) = ?kept"
    using Cons nl by (intro split_join_nl) auto
  then show ?thesis by (simp add: cleaned_sql_spec)
qed

text \<open>
  C6. The cleaning step of \<open>up\<close> removes exactly the lines whose first
  non-whitespace character is the backslash and keeps every other line, unchanged
  and in order: the lines of a script are \<open>split_nl script\<close> (joining them gives
  the script back), the cleaned text is the join of the lines that are not
  meta-command lines, and a script from which those lines were already removed
  by hand is left as it is, so the same text is executed either way.
\<close>

theorem C6_cleaned_sql_filters_meta_lines:
  "join_nl (split_nl script) = script
   \<and> cleaned_sql script = join_nl (filter (\<lambda>l. \<not> spec_meta_line l) (split_nl script))
   \<and> cleaned_sql (join_nl (filter (\<lambda>l. \<not> spec_meta_line l) (split_nl script)))
       = cleaned_sql script"
  using join_split_nl [of script] cleaned_sql_spec [of script] cleaned_sql_idem [of script]
  by simp

section \<open>The branches of manage\_db.py\<close>


lemma get_connection_admin_ok:
  "pg_connect (server w) ''postgres'' \<Longrightarrow>
   get_connection a (Some ''postgres'') w = (Inr ''postgres'', w\<lparr>calls := calls w @ [Connect ''postgres'']\<rparr>)"
  by (simp add: get_connection_def call_def Let_def)

lemma get_connection_admin_fail:
  "\<not> pg_connect (server w) ''postgres'' \<Longrightarrow>
   get_connection a (Some ''postgres'') w =
     (Inl 1, w\<lparr>calls := calls w @ [Connect ''postgres''],
               logs := logs w @ [(ERROR, Could_not_connect ''postgres''), (ERROR, Ensure_running)]\<rparr>)"
  by (simp add: get_connection_def call_def log_def Let_def)

lemma get_connection_target_ok:
  "pg_connect (server w) (dbname a) \<Longrightarrow>
   get_connection a None w = (Inr (dbname a), w\<lparr>calls := calls w @ [Connect (dbname a)]\<rparr>)"
  by (simp add: get_connection_def call_def Let_def)

lemma get_connection_target_fail:
  "\<not> pg_connect (server w) (dbname a) \<Longrightarrow>
   get_connection a None w =
     (Inl 1, w\<lparr>calls := calls w @ [Connect (dbname a)],
               logs := logs w @ [(ERROR, Could_not_connect (dbname a)), (ERROR, Ensure_running)]\<rparr>)"
  by (simp add: get_connection_def call_def log_def Let_def)

lemma ensure_database_unreachable:
  "\<not> pg_connect (server w) ''postgres'' \<Longrightarrow>
   ensure_database a w =
     (Inl 1, w\<lparr>calls := calls w @ [Connect ''postgres''],
               logs := logs w @ [(INFO, Ensuring_exists (dbname a)),
                                 (ERROR, Could_not_connect ''postgres''), (ERROR, Ensure_running)]\<rparr>)"
  by (simp add: ensure_database_def get_connection_admin_fail log_def)

lemma ensure_database_created:
  "pg_connect (server w) ''postgres'' \<Longrightarrow> pg_create_database (server w) (dbname a) = Inr srv \<Longrightarrow>
   ensure_database a w =
     (Inr (), w\<lparr>server := srv, calls := calls w @ admin_calls a,
               logs := logs w @ [(INFO, Ensuring_exists (dbname a)),
                                 (INFO, Database_created (dbname a))]\<rparr>)"
  by (simp add: ensure_database_def get_connection_admin_ok log_def call_def admin_calls_def)

lemma ensure_database_duplicate:
  "pg_connect (server w) ''postgres'' \<Longrightarrow>
   pg_create_database (server w) (dbname a) = Inl DuplicateDatabase \<Longrightarrow>
   ensure_database a w =
     (Inr (), w\<lparr>calls := calls w @ admin_calls a,
               logs := logs w @ [(INFO, Ensuring_exists (dbname a)),
                                 (INFO, Already_exists_skipping (dbname a))]\<rparr>)"
  by (simp add: ensure_database_def get_connection_admin_ok log_def call_def admin_calls_def)

lemma ensure_database_fatal:
  "pg_connect (server w) ''postgres'' \<Longrightarrow>
   pg_create_database (server w) (dbname a) = Inl e \<Longrightarrow> e \<noteq> DuplicateDatabase \<Longrightarrow>
   ensure_database a w =
     (Inl 1, w\<lparr>calls := calls w @ admin_calls a,
               logs := logs w @ [(INFO, Ensuring_exists (dbname a)), (ERROR, Create_error)]\<rparr>)"
  by (simp add: ensure_database_def get_connection_admin_ok log_def call_def admin_calls_def)

lemma apply_schema_no_file:
  "sql_file w = None \<Longrightarrow>
   apply_schema a w =
     (Inl 1, w\<lparr>logs := logs w @ [(INFO, Applying_schema (dbname a)), (ERROR, Sql_file_not_found)]\<rparr>)"
  by (simp add: apply_schema_def log_def)

lemma apply_schema_unreachable:
  "sql_file w = Some script \<Longrightarrow> \<not> pg_connect (server w) (dbname a) \<Longrightarrow>
   apply_schema a w =
     (Inl 1, w\<lparr>calls := calls w @ [Connect (dbname a)],
               logs := logs w @ [(INFO, Applying_schema (dbname a)),
                                 (ERROR, Could_not_connect (dbname a)), (ERROR, Ensure_running)]\<rparr>)"
  by (simp add: apply_schema_def get_connection_target_fail log_def)

lemma apply_schema_script_fails:
  "sql_file w = Some script \<Longrightarrow> pg_connect (server w) (dbname a) \<Longrightarrow>
   run_script (server w) (cleaned_sql script) (content (server w) (dbname a)) = (durable, None) \<Longrightarrow>
   apply_schema a w =
     (Inl 1, w\<lparr>server := settled (server w) (dbname a) durable,
               calls := calls w @ schema_calls a script @ [Rollback (dbname a), Close (dbname a)],
               logs := logs w @ [(INFO, Applying_schema (dbname a)), (ERROR, Schema_error)]\<rparr>)"
  by (simp add: apply_schema_def get_connection_target_ok log_def call_def schema_calls_def
      pg_execute_def pg_rollback_def rollback_def settled_def)

lemma apply_schema_commit_fails:
  "sql_file w = Some script \<Longrightarrow> pg_connect (server w) (dbname a) \<Longrightarrow>
   run_script (server w) (cleaned_sql script) (content (server w) (dbname a)) = (durable, Some st) \<Longrightarrow>
   \<not> commit_accepted (server w) \<Longrightarrow>
   apply_schema a w =
     (Inl 1, w\<lparr>server := settled (server w) (dbname a) durable,
               calls := calls w @ schema_calls a script
                          @ [Commit (dbname a), Rollback (dbname a), Close (dbname a)],
               logs := logs w @ [(INFO, Applying_schema (dbname a)), (ERROR, Schema_error)]\<rparr>)"
  by (simp add: apply_schema_def get_connection_target_ok log_def call_def schema_calls_def
      pg_execute_def pg_commit_def pg_rollback_def rollback_def settled_def)

lemma apply_schema_committed:
  "sql_file w = Some script \<Longrightarrow> pg_connect (server w) (dbname a) \<Longrightarrow>
   run_script (server w) (cleaned_sql script) (content (server w) (dbname a)) = (durable, Some st) \<Longrightarrow>
   commit_accepted (server w) \<Longrightarrow>
   apply_schema a w =
     (Inr (), w\<lparr>server := settled (server w) (dbname a) st,
               calls := calls w @ schema_calls a script @ [Commit (dbname a), Close (dbname a)],
               logs := logs w @ [(INFO, Applying_schema (dbname a)), (INFO, Applied_successfully)]\<rparr>)"
  by (simp add: apply_schema_def get_connection_target_ok log_def call_def schema_calls_def
      pg_execute_def pg_commit_def settled_def)

lemma down_unreachable:
  "\<not> pg_connect (server w) ''postgres'' \<Longrightarrow>
   down a w =
     (Inl 1, w\<lparr>calls := calls w @ [Connect ''postgres''],
               logs := logs w @ [(INFO, Dropping (dbname a)),
                                 (ERROR, Could_not_connect ''postgres''), (ERROR, Ensure_running)]\<rparr>)"
  by (simp add: down_def get_connection_admin_fail log_def)

lemma down_dropped:
  "pg_connect (server w) ''postgres'' \<Longrightarrow>
   pg_drop_database_if_exists (server w) ''postgres'' (dbname a) = Inr srv \<Longrightarrow>
   down a w =
     (Inr (), w\<lparr>server := srv, calls := calls w @ drop_calls a,
               logs := logs w @ [(INFO, Dropping (dbname a)),
                                 (INFO, Executing (as_string (drop_database_sql (dbname a)))),
                                 (INFO, Dropped_successfully (dbname a))]\<rparr>)"
  by (simp add: down_def get_connection_admin_ok log_def call_def drop_calls_def Let_def)

lemma down_fails:
  "pg_connect (server w) ''postgres'' \<Longrightarrow>
   pg_drop_database_if_exists (server w) ''postgres'' (dbname a) = Inl e \<Longrightarrow>
   down a w =
     (Inl 1, w\<lparr>calls := calls w @ drop_calls a,
               logs := logs w @ [(INFO, Dropping (dbname a)),
                                 (INFO, Executing (as_string (drop_database_sql (dbname a)))),
                                 (ERROR, Down_error)]\<rparr>)"
  by (simp add: down_def get_connection_admin_ok log_def call_def drop_calls_def Let_def)

lemma ensure_database_cases [case_names unreachable created duplicate fatal]:
  obtains "\<not> pg_connect (server w) ''postgres''"
  | srv where "pg_connect (server w) ''postgres''"
      and "pg_create_database (server w) (dbname a) = Inr srv"
  | "pg_connect (server w) ''postgres''"
      and "pg_create_database (server w) (dbname a) = Inl DuplicateDatabase"
  | e where "pg_connect (server w) ''postgres''"
      and "pg_create_database (server w) (dbname a) = Inl e" and "e \<noteq> DuplicateDatabase"
proof (cases "pg_connect (server w) ''postgres''")
  case False
  then show ?thesis using that(1) by simp
next
  case conn: True
  show ?thesis
  proof (cases "pg_create_database (server w) (dbname a)")
    case (Inr srv)
    then show ?thesis using conn that(2) by simp
  next
    case (Inl e)
    then show ?thesis using conn that(3) that(4) by (cases "e = DuplicateDatabase") auto
  qed
qed

lemma apply_schema_cases [case_names no_file unreachable script_fails commit_fails committed]:
  obtains "sql_file w = None"
  | script where "sql_file w = Some script" and "\<not> pg_connect (server w) (dbname a)"
  | script durable where "sql_file w = Some script" and "pg_connect (server w) (dbname a)"
      and "run_script (server w) (cleaned_sql script) (content (server w) (dbname a))
             = (durable, None)"
  | script durable st where "sql_file w = Some script" and "pg_connect (server w) (dbname a)"
      and "run_script (server w) (cleaned_sql script) (content (server w) (dbname a))
             = (durable, Some st)"
      and "\<not> commit_accepted (server w)"
  | script durable st where "sql_file w = Some script" and "pg_connect (server w) (dbname a)"
      and "run_script (server w) (cleaned_sql script) (content (server w) (dbname a))
             = (durable, Some st)"
      and "commit_accepted (server w)"
proof (cases "sql_file w")
  case None
  then show ?thesis using that(1) by simp
next
  case (Some script)
  show ?thesis
  proof (cases "pg_connect (server w) (dbname a)")
    case False
    then show ?thesis using Some that(2) by simp
  next
    case conn: True
    obtain durable r where run:
      "run_script (server w) (cleaned_sql script) (content (server w) (dbname a)) = (durable, r)"
      by (cases "run_script (server w) (cleaned_sql script) (content (server w) (dbname a))")
    show ?thesis
    proof (cases r)
      case None
      then show ?thesis using Some conn run that(3) by simp
    next
      case (Some st)
      then show ?thesis
        using \<open>sql_file w = Some script\<close> conn run that(4) that(5)
        by (cases "commit_accepted (server w)") auto
    qed
  qed
qed

lemma pg_create_database_Inr:
  "pg_create_database srv n = Inr srv' \<Longrightarrow>
   n \<notin> databases srv \<and> databases srv' = insert n (databases srv) \<and> reachable srv' = reachable srv
   \<and> create_permitted srv' = create_permitted srv \<and> create_permitted srv \<and> n \<noteq> []"
  by (auto simp: pg_create_database_def split: if_splits)

lemma pg_create_database_Inl:
  "pg_create_database srv n = Inl e \<Longrightarrow>
   (e = DuplicateDatabase \<and> n \<in> databases srv \<and> create_permitted srv \<and> n \<noteq> [])
   \<or> e = DatabaseError"
  by (auto simp: pg_create_database_def split: if_splits)

lemma ensure_database_calls:
  "pg_connect (server w) ''postgres'' \<Longrightarrow>
   calls (snd (ensure_database a w)) = calls w @ admin_calls a"
  by (cases rule: ensure_database_cases [where w=w and a=a])
     (simp_all add: ensure_database_created ensure_database_duplicate ensure_database_fatal)

lemma ensure_database_success:
  assumes "fst (ensure_database a w) = Inr u"
  shows "pg_connect (server w) ''postgres''
        \<and> dbname a \<in> databases (server (snd (ensure_database a w)))
        \<and> databases (server (snd (ensure_database a w))) = insert (dbname a) (databases (server w))
        \<and> reachable (server (snd (ensure_database a w)))
        \<and> calls (snd (ensure_database a w)) = calls w @ admin_calls a
        \<and> sql_file (snd (ensure_database a w)) = sql_file w"
proof (cases rule: ensure_database_cases [where w=w and a=a])
  case unreachable
  then show ?thesis using assms by (simp add: ensure_database_unreachable)
next
  case (created srv)
  from created(2) have "databases srv = insert (dbname a) (databases (server w))"
    and "reachable srv = reachable (server w)"
    using pg_create_database_Inr [of "server w" "dbname a" srv] by simp_all
  with created show ?thesis
    by (simp add: ensure_database_created pg_connect_def)
next
  case duplicate
  from duplicate(2) have "dbname a \<in> databases (server w)"
    using pg_create_database_Inl [of "server w" "dbname a" DuplicateDatabase] by simp
  with duplicate show ?thesis
    by (simp add: ensure_database_duplicate pg_connect_def insert_absorb)
next
  case (fatal e)
  then show ?thesis using assms by (simp add: ensure_database_fatal)
qed

lemma up_after_ensure:
  "fst (ensure_database a w) = Inr u \<Longrightarrow> up a w = apply_schema a (snd (ensure_database a w))"
  by (cases "ensure_database a w") (simp add: up_def)

lemma up_ensure_failed:
  "fst (ensure_database a w) = Inl code \<Longrightarrow> up a w = ensure_database a w"
  by (cases "ensure_database a w") (simp add: up_def)

lemma settled_fields:
  "databases (settled srv conn c) = databases srv"
  "reachable (settled srv conn c) = reachable srv"
  "create_permitted (settled srv conn c) = create_permitted srv"
  "content (settled srv conn c) = (content srv)(conn := c)"
  "pending (settled srv conn c) = (pending srv)(conn := None)"
  by (simp_all add: settled_def)

lemma apply_schema_failure:
  assumes "fst (apply_schema a w) = Inl code"
  shows "code = 1" and "databases (server (snd (apply_schema a w))) = databases (server w)"
    and "composed_statements (drop (length (calls w)) (calls (snd (apply_schema a w)))) = []"
proof -
  have "code = 1 \<and> databases (server (snd (apply_schema a w))) = databases (server w)
     \<and> composed_statements (drop (length (calls w)) (calls (snd (apply_schema a w)))) = []"
    using assms
    by (cases rule: apply_schema_cases [where w=w and a=a])
       (simp_all add: apply_schema_no_file apply_schema_unreachable apply_schema_script_fails
          apply_schema_commit_fails apply_schema_committed schema_calls_def settled_fields)
  then show "code = 1" and "databases (server (snd (apply_schema a w))) = databases (server w)"
    and "composed_statements (drop (length (calls w)) (calls (snd (apply_schema a w)))) = []"
    by simp_all
qed

lemma apply_schema_calls:
  "\<exists>rest. calls (snd (apply_schema a w)) = calls w @ rest
      \<and> composed_statements rest = [] \<and> length (filter is_commit rest) \<le> 1"
  by (cases rule: apply_schema_cases [where w=w and a=a])
     (simp_all add: apply_schema_no_file apply_schema_unreachable apply_schema_script_fails
        apply_schema_commit_fails apply_schema_committed schema_calls_def)

section \<open>The whole run of \<open>up\<close>\<close>

lemma new_calls_append: "calls w1 = calls w @ cs \<Longrightarrow> new_calls w w1 = cs"
  by (simp add: new_calls_def)

lemma new_logs_append: "logs w1 = logs w @ ls \<Longrightarrow> new_logs w w1 = ls"
  by (simp add: new_logs_def)

lemma composed_statements_append:
  "composed_statements (xs @ ys) = composed_statements xs @ composed_statements ys"
  by (induction xs rule: composed_statements.induct) simp_all

lemma composed_statements_admin:
  "composed_statements (admin_calls a) = [create_database_sql (dbname a)]"
  by (simp add: admin_calls_def)

lemma up_calls:
  assumes "pg_connect (server w) ''postgres''"
  shows "\<exists>rest. calls (snd (up a w)) = calls w @ admin_calls a @ rest
           \<and> composed_statements rest = [] \<and> length (filter is_commit rest) \<le> 1"
proof (cases "fst (ensure_database a w)")
  case (Inl code)
  then have "up a w = ensure_database a w" by (rule up_ensure_failed)
  then show ?thesis using ensure_database_calls [OF assms, of a] by simp
next
  case (Inr u)
  then have up: "up a w = apply_schema a (snd (ensure_database a w))" by (rule up_after_ensure)
  obtain rest where "calls (snd (apply_schema a (snd (ensure_database a w))))
        = calls (snd (ensure_database a w)) @ rest"
      and "composed_statements rest = []" and "length (filter is_commit rest) \<le> 1"
    using apply_schema_calls [of a "snd (ensure_database a w)"] by blast
  then show ?thesis using up ensure_database_calls [OF assms, of a] by simp
qed

lemma up_first_calls:
  assumes "pg_connect (server w) ''postgres''"
  shows "take 4 (new_calls w (snd (up a w))) = admin_calls a"
proof -
  obtain rest where "calls (snd (up a w)) = calls w @ admin_calls a @ rest"
    using up_calls [OF assms, of a] by blast
  then have "new_calls w (snd (up a w)) = admin_calls a @ rest"
    by (simp add: new_calls_def)
  then show ?thesis by (simp add: admin_calls_def)
qed

text \<open>
  C4. In \<open>up\<close>, with the admin connection open: when the create statement fails
  because the database already exists, step 1 succeeds, logs that creation is
  skipped, and the run goes on to apply the schema; when it fails for any other
  reason, the run ends with exit code 1 after the four calls of step 1, the last
  log line is the creation error and the server is unchanged: no connection to
  the target database is opened and no script is executed.
\<close>

theorem C4_duplicate_database_skipped_other_errors_fatal:
  assumes "pg_connect (server w) ''postgres''"
  shows "(pg_create_database (server w) (dbname a) = Inl DuplicateDatabase \<longrightarrow>
            fst (ensure_database a w) = Inr ()
            \<and> new_logs w (snd (ensure_database a w))
                = [(INFO, Ensuring_exists (dbname a)), (INFO, Already_exists_skipping (dbname a))]
            \<and> up a w = apply_schema a (snd (ensure_database a w)))
       \<and> (\<forall>e. pg_create_database (server w) (dbname a) = Inl e \<and> e \<noteq> DuplicateDatabase \<longrightarrow>
            fst (up a w) = Inl 1
            \<and> new_calls w (snd (up a w))
                = [Connect ''postgres'', Set_autocommit ''postgres'' True,
                   Execute ''postgres'' (Composable (create_database_sql (dbname a))),
                   Close ''postgres'']
            \<and> last (logs (snd (up a w))) = (ERROR, Create_error)
            \<and> server (snd (up a w)) = server w)"
proof (intro conjI impI allI)
  assume dup: "pg_create_database (server w) (dbname a) = Inl DuplicateDatabase"
  show "fst (ensure_database a w) = Inr ()"
    using assms dup by (simp add: ensure_database_duplicate)
  then show "up a w = apply_schema a (snd (ensure_database a w))"
    by (rule up_after_ensure)
  show "new_logs w (snd (ensure_database a w))
          = [(INFO, Ensuring_exists (dbname a)), (INFO, Already_exists_skipping (dbname a))]"
    using assms dup by (simp add: ensure_database_duplicate new_logs_def)
next
  fix e
  assume "pg_create_database (server w) (dbname a) = Inl e \<and> e \<noteq> DuplicateDatabase"
  then have ens: "ensure_database a w =
     (Inl 1, w\<lparr>calls := calls w @ admin_calls a,
               logs := logs w @ [(INFO, Ensuring_exists (dbname a)), (ERROR, Create_error)]\<rparr>)"
    using assms by (simp add: ensure_database_fatal)
  then have up: "up a w = ensure_database a w"
    by (intro up_ensure_failed [of a w 1]) simp
  show "fst (up a w) = Inl 1" using up ens by simp
  show "new_calls w (snd (up a w))
          = [Connect ''postgres'', Set_autocommit ''postgres'' True,
             Execute ''postgres'' (Composable (create_database_sql (dbname a))),
             Close ''postgres'']"
    using up ens by (simp add: new_calls_def admin_calls_def)
  show "last (logs (snd (up a w))) = (ERROR, Create_error)" using up ens by simp
  show "server (snd (up a w)) = server w" using up ens by simp
qed

theorem C4_duplicate_and_fatal_witness:
  "pg_connect (server existing_world) ''postgres''
   \<and> fst (ensure_database demo_args existing_world) = Inr ()
   \<and> up demo_args existing_world
       = apply_schema demo_args (snd (ensure_database demo_args existing_world))
   \<and> pg_connect (server denied_world) ''postgres''
   \<and> fst (up demo_args denied_world) = Inl 1
   \<and> new_calls denied_world (snd (up demo_args denied_world))
       = [Connect ''postgres'', Set_autocommit ''postgres'' True,
          Execute ''postgres'' (Composable (create_database_sql ''ecommerce'')),
          Close ''postgres'']"
proof -
  have c1: "pg_connect (server existing_world) ''postgres''"
    by (simp add: existing_world_def fresh_world_def fresh_server_def pg_connect_def)
  have d1: "pg_create_database (server existing_world) (dbname demo_args) = Inl DuplicateDatabase"
    by (simp add: existing_world_def fresh_world_def fresh_server_def pg_create_database_def
        demo_args_def)
  have c2: "pg_connect (server denied_world) ''postgres''"
    by (simp add: denied_world_def fresh_world_def fresh_server_def pg_connect_def)
  have d2: "pg_create_database (server denied_world) (dbname demo_args) = Inl DatabaseError"
    by (simp add: denied_world_def fresh_world_def fresh_server_def pg_create_database_def
        demo_args_def)
  have n: "dbname demo_args = ''ecommerce''" by (simp add: demo_args_def)
  show ?thesis
    using C4_duplicate_database_skipped_other_errors_fatal [OF c1, of demo_args]
      C4_duplicate_database_skipped_other_errors_fatal [OF c2, of demo_args] c1 c2 d1 d2 n
    by simp
qed

lemma existing_world_connect: "pg_connect (server existing_world) ''postgres''"
  by (simp add: existing_world_def fresh_world_def fresh_server_def pg_connect_def)

lemma fresh_world_connect: "pg_connect (server fresh_world) ''postgres''"
  by (simp add: fresh_world_def fresh_server_def pg_connect_def)

lemma failing_world_connect: "pg_connect (server failing_world) ''postgres''"
  by (simp add: failing_world_def fresh_world_def fresh_server_def pg_connect_def)

lemma demo_dbname: "dbname demo_args = ''ecommerce''"
  by (simp add: demo_args_def)

text \<open>
  C8, as stated, fails: on a server where the database \<open>ecommerce\<close> already
  exists, the first calls of \<open>up\<close> are the connection to \<open>postgres\<close>, the
  autocommit setting and the create statement; nothing is asked of the server
  before the create statement is issued.
\<close>

theorem C8_create_issued_for_existing_database:
  "''ecommerce'' \<in> databases (server existing_world)
   \<and> take 3 (new_calls existing_world (snd (up demo_args existing_world)))
       = [Connect ''postgres'', Set_autocommit ''postgres'' True,
          Execute ''postgres'' (Composable (create_database_sql ''ecommerce''))]"
proof -
  have "take 4 (new_calls existing_world (snd (up demo_args existing_world)))
          = admin_calls demo_args"
    using existing_world_connect by (rule up_first_calls)
  then have "take 3 (take 4 (new_calls existing_world (snd (up demo_args existing_world))))
          = take 3 (admin_calls demo_args)"
    by simp
  then have "take 3 (new_calls existing_world (snd (up demo_args existing_world)))
          = take 3 (admin_calls demo_args)"
    by simp
  then show ?thesis
    by (simp add: admin_calls_def demo_dbname existing_world_def fresh_world_def fresh_server_def)
qed

text \<open>
  C8, amended. Whenever the admin connection to the database \<open>postgres\<close> can be
  opened, \<open>up\<close> begins with the same four calls whether or not the target
  database exists: connect to \<open>postgres\<close>, set autocommit, execute the create
  statement, close. The create statement is issued unconditionally; an existing
  database shows only in the server's answer.
\<close>

theorem C8_create_issued_unconditionally:
  assumes "pg_connect (server w) ''postgres''"
  shows "take 4 (new_calls w (snd (up a w)))
           = [Connect ''postgres'', Set_autocommit ''postgres'' True,
              Execute ''postgres'' (Composable (create_database_sql (dbname a))),
              Close ''postgres'']"
  using up_first_calls [OF assms, of a] by (simp add: admin_calls_def)

theorem C8_create_issued_unconditionally_witness:
  "pg_connect (server fresh_world) ''postgres''
   \<and> ''ecommerce'' \<notin> databases (server fresh_world)
   \<and> take 4 (new_calls fresh_world (snd (up demo_args fresh_world)))
       = [Connect ''postgres'', Set_autocommit ''postgres'' True,
          Execute ''postgres'' (Composable (create_database_sql ''ecommerce'')),
          Close ''postgres'']"
  using C8_create_issued_unconditionally [OF fresh_world_connect, of demo_args]
    fresh_world_connect
  by (simp add: demo_dbname fresh_world_def fresh_server_def)

lemmas db_run_defs =
  ensure_database_def apply_schema_def get_connection_def pg_connect_def pg_create_database_def
  pg_execute_def pg_commit_def pg_rollback_def rollback_def
  call_def log_def Let_def demo_args_def fresh_world_def fresh_server_def

lemma filter_is_commit_admin: "filter is_commit (admin_calls a) = []"
  by (simp add: admin_calls_def)

lemma filter_is_rollback_admin: "filter is_rollback (admin_calls a) = []"
  by (simp add: admin_calls_def)

lemma fresh_world_step1: "fst (ensure_database demo_args fresh_world) = Inr ()"
  by (simp add: db_run_defs)

lemma failing_world_step1: "fst (ensure_database demo_args failing_world) = Inr ()"
  by (simp add: db_run_defs failing_world_def)

lemma failing_world_step2:
  "fst (apply_schema demo_args (snd (ensure_database demo_args failing_world))) = Inl 1"
  by (simp add: db_run_defs failing_world_def)

lemma committing_world_step1: "fst (ensure_database demo_args committing_world) = Inr ()"
  by (simp add: db_run_defs committing_world_def)

lemma cleaned_demo_script: "cleaned_sql demo_script = ''INSERT INTO t VALUES (1);''"
  by (simp add: cleaned_sql_def demo_script_def newline_def backslash_def startswith_def
      strip_def lstrip_def rstrip_def isspace_def)

lemma split_commit_script:
  "split_nl commit_script
     = [''CREATE TABLE a (x int);'', ''COMMIT;'', ''INSERT INTO nope VALUES (1);'']"
  by (simp add: commit_script_def newline_def)

lemma cleaned_commit_script: "cleaned_sql commit_script = commit_script"
proof -
  have "filter (\<lambda>line. \<not> startswith (strip line) [backslash]) (split_nl commit_script)
      = split_nl commit_script"
    by (simp add: split_commit_script backslash_def startswith_def strip_def lstrip_def
        rstrip_def isspace_def)
  then show ?thesis by (simp add: cleaned_sql_def join_split_nl)
qed

lemma committing_world_run:
  "run_script (server (snd (ensure_database demo_args committing_world)))
     (cleaned_sql commit_script)
     (content (server (snd (ensure_database demo_args committing_world))) (dbname demo_args))
   = ([''CREATE TABLE a (x int);''], None)"
  by (simp add: db_run_defs committing_world_def cleaned_commit_script split_commit_script)

lemma committing_world_file:
  "sql_file (snd (ensure_database demo_args committing_world)) = Some commit_script"
  by (simp add: db_run_defs committing_world_def)

lemma committing_world_before:
  "content (server (snd (ensure_database demo_args committing_world))) ''ecommerce'' = []"
  by (simp add: db_run_defs committing_world_def)

lemma committing_world_up:
  "up demo_args committing_world
     = (Inl 1, (snd (ensure_database demo_args committing_world))
          \<lparr>server := settled (server (snd (ensure_database demo_args committing_world)))
                       (dbname demo_args) [''CREATE TABLE a (x int);''],
           calls := calls (snd (ensure_database demo_args committing_world))
                      @ schema_calls demo_args commit_script
                      @ [Rollback (dbname demo_args), Close (dbname demo_args)],
           logs := logs (snd (ensure_database demo_args committing_world))
                      @ [(INFO, Applying_schema (dbname demo_args)), (ERROR, Schema_error)]\<rparr>)"
proof -
  let ?w1 = "snd (ensure_database demo_args committing_world)"
  have conn: "pg_connect (server ?w1) (dbname demo_args)"
    using ensure_database_success [OF committing_world_step1] by (simp add: pg_connect_def)
  have "up demo_args committing_world = apply_schema demo_args ?w1"
    using committing_world_step1 by (rule up_after_ensure)
  then show ?thesis
    using apply_schema_script_fails [OF committing_world_file conn committing_world_run]
    by simp
qed

text \<open>
  C10, as stated, fails in its remark that the database persists without the
  schema. On a fresh server, with a script that creates a table, commits, and
  then fails, \<open>up\<close> creates the database \<open>ecommerce\<close>, exits with code 1, and
  the database persists holding the table that the script committed, where a
  newly created database holds nothing.
\<close>

theorem C10_database_kept_with_committed_part:
  "''ecommerce'' \<notin> databases (server committing_world)
   \<and> template (server committing_world) = []
   \<and> fst (up demo_args committing_world) = Inl 1
   \<and> ''ecommerce'' \<in> databases (server (snd (up demo_args committing_world)))
   \<and> content (server (snd (up demo_args committing_world))) ''ecommerce''
       = [''CREATE TABLE a (x int);'']"
proof -
  have "''ecommerce'' \<notin> databases (server committing_world)"
    and "template (server committing_world) = []"
    by (simp_all add: committing_world_def fresh_server_def)
  moreover have "''ecommerce'' \<in> databases (server (snd (ensure_database demo_args committing_world)))"
    using ensure_database_success [OF committing_world_step1] by (simp add: demo_dbname)
  ultimately show ?thesis
    by (simp add: committing_world_up settled_fields demo_dbname)
qed

text \<open>
  C10, amended. When step 1 of \<open>up\<close> succeeded and the schema step fails, the
  run ends with exit code 1, the set of databases is as step 1 left it and
  contains the target database, and the only composed statement of the whole run
  is the create statement, so nothing drops the database. The content of the
  target database is then what the script itself had made durable before
  failing (its content after step 1 when the script committed nothing by
  itself); every other database is untouched.
\<close>

theorem C10_database_kept_when_schema_fails:
  assumes "fst (ensure_database a w) = Inr ()"
    and "fst (apply_schema a (snd (ensure_database a w))) = Inl code"
  shows "fst (up a w) = Inl 1
       \<and> databases (server (snd (up a w))) = databases (server (snd (ensure_database a w)))
       \<and> dbname a \<in> databases (server (snd (up a w)))
       \<and> composed_statements (new_calls w (snd (up a w))) = [create_database_sql (dbname a)]
       \<and> content (server (snd (up a w)))
           = (content (server (snd (ensure_database a w))))
               (dbname a := durable_content (snd (ensure_database a w)) (dbname a))"
proof -
  let ?w1 = "snd (ensure_database a w)"
  have up: "up a w = apply_schema a ?w1" using assms(1) by (rule up_after_ensure)
  note ens = ensure_database_success [OF assms(1)]
  have conn: "pg_connect (server ?w1) (dbname a)" using ens by (simp add: pg_connect_def)
  have code: "code = 1" using assms(2) by (rule apply_schema_failure(1))
  have dbs: "databases (server (snd (apply_schema a ?w1))) = databases (server ?w1)"
    using assms(2) by (rule apply_schema_failure(2))
  obtain rest where rest: "calls (snd (apply_schema a ?w1)) = calls ?w1 @ rest"
      "composed_statements rest = []"
    using apply_schema_calls [of a ?w1] by blast
  have "calls (snd (up a w)) = calls w @ admin_calls a @ rest"
    using up rest(1) ens by simp
  then have "new_calls w (snd (up a w)) = admin_calls a @ rest"
    by (simp add: new_calls_def)
  then have stm: "composed_statements (new_calls w (snd (up a w)))
      = [create_database_sql (dbname a)]"
    using rest(2) by (simp add: composed_statements_append composed_statements_admin)
  have cont: "content (server (snd (apply_schema a ?w1)))
      = (content (server ?w1))(dbname a := durable_content ?w1 (dbname a))"
    using assms(2) conn
    by (cases rule: apply_schema_cases [where w="?w1" and a=a])
       (simp_all add: apply_schema_no_file apply_schema_script_fails apply_schema_commit_fails
          apply_schema_committed settled_fields durable_content_def)
  have "fst (up a w) = Inl 1" using up assms(2) code by simp
  moreover have "databases (server (snd (up a w))) = databases (server ?w1)"
    using up dbs by simp
  moreover have "dbname a \<in> databases (server (snd (up a w)))"
    using up dbs ens by simp
  moreover have "content (server (snd (up a w)))
      = (content (server ?w1))(dbname a := durable_content ?w1 (dbname a))"
    using up cont by simp
  ultimately show ?thesis using stm by blast
qed

theorem C10_database_kept_when_schema_fails_witness:
  "fst (ensure_database demo_args failing_world) = Inr ()
   \<and> fst (apply_schema demo_args (snd (ensure_database demo_args failing_world))) = Inl 1
   \<and> ''ecommerce'' \<notin> databases (server failing_world)
   \<and> fst (up demo_args failing_world) = Inl 1
   \<and> ''ecommerce'' \<in> databases (server (snd (up demo_args failing_world)))
   \<and> composed_statements (new_calls failing_world (snd (up demo_args failing_world)))
       = [create_database_sql ''ecommerce'']"
proof -
  have "''ecommerce'' \<notin> databases (server failing_world)"
    by (simp add: failing_world_def fresh_world_def fresh_server_def)
  then show ?thesis
    using C10_database_kept_when_schema_fails [OF failing_world_step1 failing_world_step2]
      failing_world_step1 failing_world_step2
    unfolding demo_dbname by blast
qed

text \<open>
  C2, as stated, fails in its atomicity. With the script that creates a table,
  commits, and then fails, the schema step of \<open>up\<close> makes its five calls, ending
  with the rollback, and exits with code 1, and the content of the target
  database is not what it was before the step: the table that the script
  committed is there.
\<close>

theorem C2_failed_script_leaves_committed_part:
  "sql_file (snd (ensure_database demo_args committing_world)) = Some commit_script
   \<and> content (server (snd (ensure_database demo_args committing_world))) ''ecommerce'' = []
   \<and> fst (up demo_args committing_world) = Inl 1
   \<and> new_calls (snd (ensure_database demo_args committing_world))
        (snd (up demo_args committing_world))
       = [Connect ''ecommerce'', Set_autocommit ''ecommerce'' False,
          Execute ''ecommerce'' (Text commit_script),
          Rollback ''ecommerce'', Close ''ecommerce'']
   \<and> content (server (snd (up demo_args committing_world))) ''ecommerce''
       \<noteq> content (server (snd (ensure_database demo_args committing_world))) ''ecommerce''"
  using committing_world_file committing_world_before
  by (simp add: committing_world_up settled_fields demo_dbname new_calls_def schema_calls_def
      cleaned_commit_script)

text \<open>
  C2, amended. In \<open>up\<close>, once step 1 has succeeded and the script file was read,
  the cleaned script is executed by one call on the connection to the target
  database, with autocommit off. If its execution fails, the calls of the step
  are connect, autocommit off, execute, rollback, close; the run issues no
  commit, logs the error as its last line and exits with code 1; no transaction
  is left open, the set of databases is unchanged, and the content of the target
  database is what the script itself had made durable, so it is unchanged when
  the script committed nothing by itself. If its execution succeeds, the whole
  run issues exactly one commit; when the server accepts it the content of the
  target database is the result of the script and nothing is rolled back, and
  when the server refuses it the run exits with code 1 and the content is again
  what the script itself had made durable.
\<close>

theorem C2_schema_step_rolls_back_or_commits_once:
  assumes "fst (ensure_database a w0) = Inr ()"
    and "w = snd (ensure_database a w0)"
    and "sql_file w = Some script"
    and "run_script (server w) (cleaned_sql script) (content (server w) (dbname a))
           = (durable, r)"
  shows "(r = None \<longrightarrow>
            fst (up a w0) = Inl 1
            \<and> new_calls w (snd (up a w0))
                = [Connect (dbname a), Set_autocommit (dbname a) False,
                   Execute (dbname a) (Text (cleaned_sql script)),
                   Rollback (dbname a), Close (dbname a)]
            \<and> filter is_commit (new_calls w0 (snd (up a w0))) = []
            \<and> last (logs (snd (up a w0))) = (ERROR, Schema_error)
            \<and> pending (server (snd (up a w0))) (dbname a) = None
            \<and> databases (server (snd (up a w0))) = databases (server w)
            \<and> content (server (snd (up a w0))) = (content (server w))(dbname a := durable)
            \<and> (durable = content (server w) (dbname a) \<longrightarrow>
                  content (server (snd (up a w0))) = content (server w)))
       \<and> (\<forall>st. r = Some st \<longrightarrow>
            length (filter is_commit (new_calls w0 (snd (up a w0)))) = 1
            \<and> (commit_accepted (server w) \<longrightarrow>
                  fst (up a w0) = Inr ()
                  \<and> content (server (snd (up a w0))) (dbname a) = st
                  \<and> filter is_rollback (new_calls w0 (snd (up a w0))) = [])
            \<and> (\<not> commit_accepted (server w) \<longrightarrow>
                  fst (up a w0) = Inl 1
                  \<and> content (server (snd (up a w0)))
                      = (content (server w))(dbname a := durable)))"
proof -
  have up: "up a w0 = apply_schema a w"
    using assms(1,2) up_after_ensure [of a w0 "()"] by simp
  note ens = ensure_database_success [OF assms(1)]
  have conn: "pg_connect (server w) (dbname a)"
    using ens assms(2) by (simp add: pg_connect_def)
  have cw: "calls w = calls w0 @ admin_calls a"
    using ens assms(2) by simp
  show ?thesis
  proof (intro conjI impI allI)
    assume none: "r = None"
    note r = apply_schema_script_fails [OF assms(3) conn assms(4) [unfolded none]]
    show "fst (up a w0) = Inl 1" using up r by simp
    show "new_calls w (snd (up a w0))
            = [Connect (dbname a), Set_autocommit (dbname a) False,
               Execute (dbname a) (Text (cleaned_sql script)),
               Rollback (dbname a), Close (dbname a)]"
      using up r by (simp add: new_calls_def schema_calls_def)
    show "filter is_commit (new_calls w0 (snd (up a w0))) = []"
      using up r cw by (simp add: new_calls_def schema_calls_def filter_is_commit_admin)
    show "last (logs (snd (up a w0))) = (ERROR, Schema_error)" using up r by simp
    show "pending (server (snd (up a w0))) (dbname a) = None"
      using up r by (simp add: settled_fields)
    show "databases (server (snd (up a w0))) = databases (server w)"
      using up r by (simp add: settled_fields)
    show c: "content (server (snd (up a w0))) = (content (server w))(dbname a := durable)"
      using up r by (simp add: settled_fields)
    assume "durable = content (server w) (dbname a)"
    then show "content (server (snd (up a w0))) = content (server w)"
      using c by simp
  next
    fix st
    assume some: "r = Some st"
    show "length (filter is_commit (new_calls w0 (snd (up a w0)))) = 1"
    proof (cases "commit_accepted (server w)")
      case True
      note r = apply_schema_committed [OF assms(3) conn assms(4) [unfolded some] True]
      show ?thesis using up r cw
        by (simp add: new_calls_def schema_calls_def filter_is_commit_admin)
    next
      case False
      note r = apply_schema_commit_fails [OF assms(3) conn assms(4) [unfolded some] False]
      show ?thesis using up r cw
        by (simp add: new_calls_def schema_calls_def filter_is_commit_admin)
    qed
  next
    fix st
    assume some: "r = Some st" and acc: "commit_accepted (server w)"
    note r = apply_schema_committed [OF assms(3) conn assms(4) [unfolded some] acc]
    show "fst (up a w0) = Inr ()" using up r by simp
    show "content (server (snd (up a w0))) (dbname a) = st"
      using up r by (simp add: settled_fields)
    show "filter is_rollback (new_calls w0 (snd (up a w0))) = []"
      using up r cw by (simp add: new_calls_def schema_calls_def filter_is_rollback_admin)
  next
    fix st
    assume some: "r = Some st" and acc: "\<not> commit_accepted (server w)"
    note r = apply_schema_commit_fails [OF assms(3) conn assms(4) [unfolded some] acc]
    show "fst (up a w0) = Inl 1" using up r by simp
    show "content (server (snd (up a w0))) = (content (server w))(dbname a := durable)"
      using up r by (simp add: settled_fields)
  qed
qed

lemma fresh_world_file:
  "sql_file (snd (ensure_database demo_args fresh_world)) = Some demo_script"
  by (simp add: db_run_defs)

lemma fresh_world_run:
  "run_script (server (snd (ensure_database demo_args fresh_world))) (cleaned_sql demo_script)
     (content (server (snd (ensure_database demo_args fresh_world))) (dbname demo_args))
   = ([], Some [cleaned_sql demo_script])"
  by (simp add: db_run_defs)

lemma fresh_world_commit:
  "commit_accepted (server (snd (ensure_database demo_args fresh_world)))"
  by (simp add: db_run_defs)

lemma failing_world_file:
  "sql_file (snd (ensure_database demo_args failing_world)) = Some demo_script"
  by (simp add: db_run_defs failing_world_def)

lemma failing_world_run:
  "run_script (server (snd (ensure_database demo_args failing_world))) (cleaned_sql demo_script)
     (content (server (snd (ensure_database demo_args failing_world))) (dbname demo_args))
   = (content (server (snd (ensure_database demo_args failing_world))) (dbname demo_args), None)"
  by (simp add: db_run_defs failing_world_def)

theorem C2_schema_step_rolls_back_or_commits_once_witness:
  "fst (ensure_database demo_args fresh_world) = Inr ()
   \<and> sql_file (snd (ensure_database demo_args fresh_world)) = Some demo_script
   \<and> length (filter is_commit (new_calls fresh_world (snd (up demo_args fresh_world)))) = 1
   \<and> fst (up demo_args fresh_world) = Inr ()
   \<and> content (server (snd (up demo_args fresh_world))) ''ecommerce''
       = [''INSERT INTO t VALUES (1);'']
   \<and> fst (ensure_database demo_args failing_world) = Inr ()
   \<and> sql_file (snd (ensure_database demo_args failing_world)) = Some demo_script
   \<and> fst (up demo_args failing_world) = Inl 1
   \<and> filter is_commit (new_calls failing_world (snd (up demo_args failing_world))) = []
   \<and> content (server (snd (up demo_args failing_world)))
       = content (server (snd (ensure_database demo_args failing_world)))"
proof -
  note ok = C2_schema_step_rolls_back_or_commits_once
              [OF fresh_world_step1 refl fresh_world_file fresh_world_run]
  note ko = C2_schema_step_rolls_back_or_commits_once
              [OF failing_world_step1 refl failing_world_file failing_world_run]
  have "length (filter is_commit (new_calls fresh_world (snd (up demo_args fresh_world)))) = 1"
    and "fst (up demo_args fresh_world) = Inr ()"
    and "content (server (snd (up demo_args fresh_world))) (dbname demo_args)
          = [cleaned_sql demo_script]"
    using ok fresh_world_commit by blast+
  moreover have "fst (up demo_args failing_world) = Inl 1"
    and "filter is_commit (new_calls failing_world (snd (up demo_args failing_world))) = []"
    and "content (server (snd (up demo_args failing_world)))
          = content (server (snd (ensure_database demo_args failing_world)))"
    using ko by blast+
  ultimately show ?thesis
    using fresh_world_step1 fresh_world_file failing_world_step1 failing_world_file
    by (simp add: demo_dbname cleaned_demo_script)
qed

section \<open>Identifier quoting\<close>

lemma read_quoted_escape: "read_quoted (escape_ident n @ [dquote]) = Some (n, [])"
proof (induction n)
  case Nil
  show ?case by (simp add: escape_ident_def)
next
  case (Cons c n)
  obtain d cs where rest: "escape_ident n @ [dquote] = d # cs"
    by (cases "escape_ident n @ [dquote]") auto
  have esc: "escape_ident (c # n)
      = (if c = dquote then [dquote, dquote] else [c]) @ escape_ident n"
    by (simp add: escape_ident_def)
  show ?case
  proof (cases "c = dquote")
    case True
    then have "escape_ident (c # n) @ [dquote] = dquote # dquote # (escape_ident n @ [dquote])"
      using esc by simp
    then show ?thesis using Cons.IH True by simp
  next
    case False
    then have "escape_ident (c # n) @ [dquote] = c # d # cs"
      using esc rest by simp
    moreover have "read_quoted (d # cs) = Some (n, [])" using Cons.IH rest by simp
    ultimately show ?thesis using False by simp
  qed
qed

lemma read_ident_quote: "read_ident (quote_ident n) = Some (n, [])"
  by (simp add: read_ident_def quote_ident_def read_quoted_escape)

lemma text_statements_append:
  "text_statements (xs @ ys) = text_statements xs @ text_statements ys"
  by (induction xs rule: text_statements.induct) simp_all

lemma apply_schema_statements:
  "composed_statements (new_calls w (snd (apply_schema a w))) = []
   \<and> set (text_statements (new_calls w (snd (apply_schema a w))))
       \<subseteq> (case sql_file w of None \<Rightarrow> {} | Some s \<Rightarrow> {cleaned_sql s})"
  by (cases rule: apply_schema_cases [where w=w and a=a])
     (simp_all add: apply_schema_no_file apply_schema_unreachable apply_schema_script_fails
        apply_schema_commit_fails apply_schema_committed schema_calls_def new_calls_def)

lemma ensure_database_statements:
  "composed_statements (new_calls w (snd (ensure_database a w)))
     = (if pg_connect (server w) ''postgres'' then [create_database_sql (dbname a)] else [])
   \<and> text_statements (new_calls w (snd (ensure_database a w))) = []"
  by (cases rule: ensure_database_cases [where w=w and a=a])
     (simp_all add: ensure_database_unreachable ensure_database_created
        ensure_database_duplicate ensure_database_fatal admin_calls_def new_calls_def)

lemma ensure_database_calls_prefix:
  "\<exists>cs. calls (snd (ensure_database a w)) = calls w @ cs"
  by (cases rule: ensure_database_cases [where w=w and a=a])
     (simp_all add: ensure_database_unreachable ensure_database_created
        ensure_database_duplicate ensure_database_fatal)

lemma apply_schema_calls_prefix:
  "\<exists>cs. calls (snd (apply_schema a w)) = calls w @ cs"
  using apply_schema_calls [of a w] by blast

lemma ensure_database_file: "sql_file (snd (ensure_database a w)) = sql_file w"
  by (cases rule: ensure_database_cases [where w=w and a=a])
     (simp_all add: ensure_database_unreachable ensure_database_created
        ensure_database_duplicate ensure_database_fatal)

lemma new_calls_trans:
  assumes "calls w1 = calls w @ cs" and "calls w2 = calls w1 @ ds"
  shows "new_calls w w2 = new_calls w w1 @ new_calls w1 w2"
  using assms by (simp add: new_calls_def)

lemma up_statements:
  "composed_statements (new_calls w (snd (up a w)))
     = (if pg_connect (server w) ''postgres'' then [create_database_sql (dbname a)] else [])
   \<and> set (text_statements (new_calls w (snd (up a w))))
       \<subseteq> (case sql_file w of None \<Rightarrow> {} | Some s \<Rightarrow> {cleaned_sql s})"
proof (cases "fst (ensure_database a w)")
  case (Inl code)
  then have "up a w = ensure_database a w" by (rule up_ensure_failed)
  then show ?thesis using ensure_database_statements [of w a] by simp
next
  case (Inr u)
  let ?w1 = "snd (ensure_database a w)"
  have up: "up a w = apply_schema a ?w1" using Inr by (rule up_after_ensure)
  obtain cs where cs: "calls ?w1 = calls w @ cs"
    using ensure_database_calls_prefix [of a w] by blast
  obtain ds where ds: "calls (snd (apply_schema a ?w1)) = calls ?w1 @ ds"
    using apply_schema_calls_prefix [of a ?w1] by blast
  have split: "new_calls w (snd (up a w))
      = new_calls w ?w1 @ new_calls ?w1 (snd (apply_schema a ?w1))"
    using up new_calls_trans [OF cs ds] by simp
  show ?thesis
    using split ensure_database_statements [of w a] apply_schema_statements [of ?w1 a]
    by (simp add: composed_statements_append text_statements_append ensure_database_file)
qed

lemma down_statements:
  "composed_statements (new_calls w (snd (down a w)))
     = (if pg_connect (server w) ''postgres'' then [drop_database_sql (dbname a)] else [])
   \<and> text_statements (new_calls w (snd (down a w))) = []"
proof (cases "pg_connect (server w) ''postgres''")
  case False
  then show ?thesis by (simp add: down_unreachable new_calls_def)
next
  case True
  then show ?thesis
    by (cases "pg_drop_database_if_exists (server w) ''postgres'' (dbname a)")
       (simp_all add: down_dropped down_fails drop_calls_def new_calls_def)
qed

text \<open>
  C9. For every database name, the only composed statement that \<open>up\<close> executes
  is \<open>CREATE DATABASE\<close> followed by the name as an \<open>Identifier\<close>, and the only
  one that \<open>down\<close> executes is \<open>DROP DATABASE IF EXISTS\<close> followed by the name
  as an \<open>Identifier\<close>; the only plain text executed is the cleaned script, which
  does not depend on the name. Rendered, each statement is its keyword text
  followed by the quoted name, and the quoted name is read back by the lexical
  rule for quoted identifiers as exactly the name, with nothing left over,
  whatever characters the name has.
\<close>

theorem C9_database_name_only_as_identifier:
  "composed_statements (new_calls w (snd (up a w)))
     = (if pg_connect (server w) ''postgres''
        then [Composed [SQL ''CREATE DATABASE '', Identifier (dbname a)]] else [])
   \<and> set (text_statements (new_calls w (snd (up a w))))
       \<subseteq> (case sql_file w of None \<Rightarrow> {} | Some s \<Rightarrow> {cleaned_sql s})
   \<and> composed_statements (new_calls w (snd (down a w)))
     = (if pg_connect (server w) ''postgres''
        then [Composed [SQL ''DROP DATABASE IF EXISTS '', Identifier (dbname a)]] else [])
   \<and> text_statements (new_calls w (snd (down a w))) = []
   \<and> as_string (Composed [SQL ''CREATE DATABASE '', Identifier (dbname a)])
       = ''CREATE DATABASE '' @ quote_ident (dbname a)
   \<and> as_string (Composed [SQL ''DROP DATABASE IF EXISTS '', Identifier (dbname a)])
       = ''DROP DATABASE IF EXISTS '' @ quote_ident (dbname a)
   \<and> read_ident (quote_ident (dbname a)) = Some (dbname a, [])"
  using up_statements [of w a] down_statements [of w a] read_ident_quote [of "dbname a"]
  by (simp add: create_database_sql_def drop_database_sql_def)

theorem C9_database_name_only_as_identifier_witness:
  "pg_connect (server fresh_world) ''postgres''
   \<and> composed_statements (new_calls fresh_world (snd (up quoting_args fresh_world)))
       = [Composed [SQL ''CREATE DATABASE '', Identifier (dbname quoting_args)]]
   \<and> as_string (Composed [SQL ''CREATE DATABASE '', Identifier (dbname quoting_args)])
       = ''CREATE DATABASE '' @ dquote # ''my-Db'' @ dquote # dquote
           # ''; DROP DATABASE x; --'' @ [dquote]
   \<and> read_ident (dquote # ''my-Db'' @ dquote # dquote # ''; DROP DATABASE x; --'' @ [dquote])
       = Some (''my-Db'' @ dquote # ''; DROP DATABASE x; --'', [])"
proof -
  have q: "quote_ident (dbname quoting_args)
      = dquote # ''my-Db'' @ dquote # dquote # ''; DROP DATABASE x; --'' @ [dquote]"
    by (simp add: quoting_args_def quote_ident_def escape_ident_def dquote_def)
  have n: "dbname quoting_args = ''my-Db'' @ dquote # ''; DROP DATABASE x; --''"
    by (simp add: quoting_args_def)
  show ?thesis
    using C9_database_name_only_as_identifier [of fresh_world quoting_args]
      fresh_world_connect q n
    by simp
qed

section \<open>The topic tool\<close>

lemma select_topics_fst:
  "fst (select_topics ex np rf ns acc w)
     = acc @ map (\<lambda>n. NewTopic n np rf) (filter (\<lambda>n. n \<notin> ex) ns)"
  by (induction ns arbitrary: acc w) auto

lemma select_topics_cluster: "cluster (snd (select_topics ex np rf ns acc w)) = cluster w"
  by (induction ns arbitrary: acc w) (auto simp: klog_def)

lemma select_topics_kcalls: "kcalls (snd (select_topics ex np rf ns acc w)) = kcalls w"
  by (induction ns arbitrary: acc w) (auto simp: klog_def)

lemma log_created_cluster: "cluster (log_created ts w) = cluster w"
  by (induction ts arbitrary: w) (auto simp: klog_def)

lemma log_created_kcalls: "kcalls (log_created ts w) = kcalls w"
  by (induction ts arbitrary: w) (auto simp: klog_def)

lemma create_topics_list_fails:
  "\<not> list_ok (cluster w) \<Longrightarrow>
   create_topics w topic_names np rf = (Inl KafkaError, w\<lparr>kcalls := kcalls w @ [List_topics]\<rparr>)"
  by (simp add: create_topics_def Let_def kcall_def)

lemma create_topics_none_missing:
  assumes "list_ok (cluster w)" "filter (\<lambda>n. n \<notin> topics (cluster w)) topic_names = []"
  shows "fst (create_topics w topic_names np rf) = Inr ()
       \<and> kcalls (snd (create_topics w topic_names np rf)) = kcalls w @ [List_topics]
       \<and> cluster (snd (create_topics w topic_names np rf)) = cluster w
       \<and> last (klogs (snd (create_topics w topic_names np rf))) = (INFO, No_new_topics)"
proof -
  let ?w1 = "kcall List_topics w"
  obtain tc w2 where sel: "select_topics (topics (cluster w)) np rf topic_names [] ?w1 = (tc, w2)"
    by (cases "select_topics (topics (cluster w)) np rf topic_names [] ?w1")
  have tc: "tc = []"
    using select_topics_fst [of "topics (cluster w)" np rf topic_names "[]" ?w1] sel assms(2)
    by simp
  have c2: "cluster w2 = cluster w"
    using select_topics_cluster [of "topics (cluster w)" np rf topic_names "[]" ?w1] sel
    by (simp add: kcall_def)
  have k2: "kcalls w2 = kcalls w @ [List_topics]"
    using select_topics_kcalls [of "topics (cluster w)" np rf topic_names "[]" ?w1] sel
    by (simp add: kcall_def)
  have "create_topics w topic_names np rf = (Inr (), klog INFO No_new_topics w2)"
    using assms(1) sel tc by (simp add: create_topics_def Let_def kcall_def)
  then show ?thesis using c2 k2 by (simp add: klog_def)
qed

lemma create_topics_some_missing:
  assumes "list_ok (cluster w)" "filter (\<lambda>n. n \<notin> topics (cluster w)) topic_names \<noteq> []"
  shows "fst (create_topics w topic_names np rf) = Inr ()
       \<and> kcalls (snd (create_topics w topic_names np rf))
           = kcalls w @ [List_topics,
               Create_topics (map (\<lambda>n. NewTopic n np rf)
                 (filter (\<lambda>n. n \<notin> topics (cluster w)) topic_names)) False]
       \<and> cluster (snd (create_topics w topic_names np rf))
           = snd (kafka_create_topics (cluster w) (map (\<lambda>n. NewTopic n np rf)
                 (filter (\<lambda>n. n \<notin> topics (cluster w)) topic_names)))"
proof -
  let ?w1 = "kcall List_topics w"
  let ?tc = "map (\<lambda>n. NewTopic n np rf) (filter (\<lambda>n. n \<notin> topics (cluster w)) topic_names)"
  obtain tc w2 where sel: "select_topics (topics (cluster w)) np rf topic_names [] ?w1 = (tc, w2)"
    by (cases "select_topics (topics (cluster w)) np rf topic_names [] ?w1")
  have tc: "tc = ?tc"
    using select_topics_fst [of "topics (cluster w)" np rf topic_names "[]" ?w1] sel
    by simp
  have ne: "tc \<noteq> []" using tc assms(2) by simp
  have c2: "cluster w2 = cluster w"
    using select_topics_cluster [of "topics (cluster w)" np rf topic_names "[]" ?w1] sel
    by (simp add: kcall_def)
  have k2: "kcalls w2 = kcalls w @ [List_topics]"
    using select_topics_kcalls [of "topics (cluster w)" np rf topic_names "[]" ?w1] sel
    by (simp add: kcall_def)
  obtain r c where kc: "kafka_create_topics (cluster w) tc = (r, c)"
    by (cases "kafka_create_topics (cluster w) tc")
  have "fst (create_topics w topic_names np rf) = Inr ()
     \<and> kcalls (snd (create_topics w topic_names np rf))
         = kcalls w @ [List_topics, Create_topics tc False]
     \<and> cluster (snd (create_topics w topic_names np rf)) = c"
    using assms(1) sel ne c2 k2 kc
    by (cases r) (simp_all add: create_topics_def Let_def kcall_def klog_def
        log_created_cluster log_created_kcalls)
  then show ?thesis using tc kc by simp
qed




section \<open>Teardown\<close>

lemma pg_drop_Inr:
  "pg_drop_database_if_exists srv conn n = Inr srv' \<Longrightarrow>
   n \<notin> databases srv' \<and> n \<noteq> [] \<and> reachable srv' = reachable srv
   \<and> (conn \<in> databases srv \<longrightarrow> conn \<in> databases srv')"
  by (auto simp: pg_drop_database_if_exists_def split: if_splits)

lemma pg_drop_absent:
  "n \<noteq> [] \<Longrightarrow> n \<notin> databases srv \<Longrightarrow> pg_drop_database_if_exists srv conn n = Inr srv"
  by (simp add: pg_drop_database_if_exists_def)

lemma down_absent:
  assumes "pg_connect (server w) ''postgres''" and "dbname a \<noteq> []"
    and "dbname a \<notin> databases (server w)"
  shows "fst (down a w) = Inr ()" and "server (snd (down a w)) = server w"
    and "new_logs w (snd (down a w))
          = [(INFO, Dropping (dbname a)),
             (INFO, Executing (as_string (drop_database_sql (dbname a)))),
             (INFO, Dropped_successfully (dbname a))]"
    and "new_calls w (snd (down a w)) = drop_calls a"
  using down_dropped [OF assms(1) pg_drop_absent [OF assms(2,3)]]
  by (simp_all add: new_logs_def new_calls_def)

lemma down_success:
  assumes "fst (down a w) = Inr ()"
  shows "pg_connect (server (snd (down a w))) ''postgres''"
    and "dbname a \<noteq> []"
    and "dbname a \<notin> databases (server (snd (down a w)))"
proof -
  have conn: "pg_connect (server w) ''postgres''"
    using assms by (cases "pg_connect (server w) ''postgres''") (simp_all add: down_unreachable)
  obtain srv where drop: "pg_drop_database_if_exists (server w) ''postgres'' (dbname a) = Inr srv"
    using assms conn
    by (cases "pg_drop_database_if_exists (server w) ''postgres'' (dbname a)")
       (simp_all add: down_fails)
  have srv: "server (snd (down a w)) = srv"
    using down_dropped [OF conn drop] by simp
  show "pg_connect (server (snd (down a w))) ''postgres''"
    using srv conn pg_drop_Inr [OF drop] by (simp add: pg_connect_def)
  show "dbname a \<noteq> []" using pg_drop_Inr [OF drop] by simp
  show "dbname a \<notin> databases (server (snd (down a w)))"
    using srv pg_drop_Inr [OF drop] by simp
qed

lemma log_deletion_sent_cluster: "cluster (log_deletion_sent ts w) = cluster w"
  by (induction ts arbitrary: w) (auto simp: klog_def)

lemma log_deletion_sent_kcalls: "kcalls (log_deletion_sent ts w) = kcalls w"
  by (induction ts arbitrary: w) (auto simp: klog_def)

lemma delete_topics_cluster:
  "delete_ok (cluster w) \<Longrightarrow>
   cluster (delete_topics w ns) = (cluster w)\<lparr>topics := topics (cluster w) - set ns\<rparr>"
  by (simp add: delete_topics_def kafka_delete_topics_def kcall_def klog_def Let_def
      log_deletion_sent_cluster)

lemma delete_topics_kcalls: "kcalls (delete_topics w ns) = kcalls w @ [Delete_topics ns]"
  by (cases "kafka_delete_topics (cluster w) ns"; cases "fst (kafka_delete_topics (cluster w) ns)")
     (simp_all add: delete_topics_def kcall_def klog_def Let_def log_deletion_sent_kcalls)

lemma delete_topics_absent:
  assumes "delete_ok (cluster w)" and "ns \<noteq> []" and "set ns \<inter> topics (cluster w) = {}"
  shows "klogs (delete_topics w ns) = klogs w @ [(WARNING, One_or_more_do_not_exist)]"
proof -
  have "\<exists>n \<in> set ns. n \<notin> topics (cluster w)"
    using assms(2,3) by (cases ns) auto
  then show ?thesis
    using assms(1)
    by (simp add: delete_topics_def kafka_delete_topics_def kcall_def klog_def Let_def)
qed

lemma existing_world_down: "fst (down demo_args existing_world) = Inr ()"
  by (simp add: down_def get_connection_def pg_connect_def pg_drop_database_if_exists_def
      call_def log_def Let_def demo_args_def existing_world_def fresh_world_def fresh_server_def)

text \<open>
  C5, as stated, fails for the database tool in two places. After a first
  successful \<open>down\<close>, the second \<open>down\<close> succeeds but reports no not-found
  warning: its three log lines are informational and end with the message that
  the database was dropped. And with the empty database name, which is absent
  from every server, \<open>down\<close> is a failure: the server rejects the statement and
  the process exits with code 1.
\<close>

theorem C5_second_down_logs_no_warning:
  "fst (down demo_args existing_world) = Inr ()
   \<and> fst (down demo_args (snd (down demo_args existing_world))) = Inr ()
   \<and> new_logs (snd (down demo_args existing_world))
        (snd (down demo_args (snd (down demo_args existing_world))))
       = [(INFO, Dropping ''ecommerce''),
          (INFO, Executing (as_string (drop_database_sql ''ecommerce''))),
          (INFO, Dropped_successfully ''ecommerce'')]
   \<and> dbname empty_name_args \<notin> databases (server fresh_world)
   \<and> fst (down empty_name_args fresh_world) = Inl 1"
proof -
  note s = down_success [OF existing_world_down]
  have "dbname empty_name_args \<notin> databases (server fresh_world)"
    by (simp add: empty_name_args_def fresh_world_def fresh_server_def)
  moreover have "fst (down empty_name_args fresh_world) = Inl 1"
    by (simp add: down_def get_connection_def pg_connect_def pg_drop_database_if_exists_def
        call_def log_def Let_def empty_name_args_def fresh_world_def fresh_server_def)
  ultimately show ?thesis
    using existing_world_down down_absent(1) [OF s] down_absent(3) [OF s]
    by (simp add: demo_dbname)
qed

text \<open>
  C5, amended. Deleting what is absent is a success in both tools, for a database
  name that is not empty. When \<open>down\<close> can open its admin connection and the
  database does not exist, it succeeds, executes \<open>DROP DATABASE IF EXISTS\<close> with
  the name as an identifier, leaves the server unchanged and logs three
  informational lines, the last one that the database was dropped; so after a
  first successful \<open>down\<close> the database is absent and a second \<open>down\<close> succeeds
  too, changes nothing and logs those same three lines: no error and no warning.
  \<open>delete_topics\<close> always submits the full list of names. On a cluster that
  serves delete requests, after a first run none of the names exists, and a
  second run with a non-empty list submits the full list again, leaves the topics
  as they are and logs exactly one line, the warning that topics do not exist.
\<close>

theorem C5_teardown_of_absent_resource:
  "(pg_connect (server w) ''postgres'' \<and> dbname a \<noteq> [] \<and> dbname a \<notin> databases (server w) \<longrightarrow>
      fst (down a w) = Inr () \<and> server (snd (down a w)) = server w
      \<and> composed_statements (new_calls w (snd (down a w)))
          = [Composed [SQL ''DROP DATABASE IF EXISTS '', Identifier (dbname a)]]
      \<and> new_logs w (snd (down a w))
          = [(INFO, Dropping (dbname a)),
             (INFO, Executing (as_string (drop_database_sql (dbname a)))),
             (INFO, Dropped_successfully (dbname a))])
   \<and> (fst (down a w) = Inr () \<longrightarrow>
        dbname a \<notin> databases (server (snd (down a w)))
        \<and> fst (down a (snd (down a w))) = Inr ()
        \<and> server (snd (down a (snd (down a w)))) = server (snd (down a w))
        \<and> new_logs (snd (down a w)) (snd (down a (snd (down a w))))
            = [(INFO, Dropping (dbname a)),
               (INFO, Executing (as_string (drop_database_sql (dbname a)))),
               (INFO, Dropped_successfully (dbname a))])
   \<and> new_kcalls k (delete_topics k topic_names) = [Delete_topics topic_names]
   \<and> (delete_ok (cluster k) \<and> topic_names \<noteq> [] \<longrightarrow>
        set topic_names \<inter> topics (cluster (delete_topics k topic_names)) = {}
        \<and> new_kcalls (delete_topics k topic_names)
             (delete_topics (delete_topics k topic_names) topic_names)
            = [Delete_topics topic_names]
        \<and> topics (cluster (delete_topics (delete_topics k topic_names) topic_names))
            = topics (cluster (delete_topics k topic_names))
        \<and> new_klogs (delete_topics k topic_names)
             (delete_topics (delete_topics k topic_names) topic_names)
            = [(WARNING, One_or_more_do_not_exist)])"
proof (intro conjI impI)
  assume h: "pg_connect (server w) ''postgres'' \<and> dbname a \<noteq> []
      \<and> dbname a \<notin> databases (server w)"
  then have c: "pg_connect (server w) ''postgres''" and v: "dbname a \<noteq> []"
    and n: "dbname a \<notin> databases (server w)"
    by simp_all
  show "fst (down a w) = Inr ()" using down_absent(1) [OF c v n] .
  show "server (snd (down a w)) = server w" using down_absent(2) [OF c v n] .
  show "composed_statements (new_calls w (snd (down a w)))
          = [Composed [SQL ''DROP DATABASE IF EXISTS '', Identifier (dbname a)]]"
    using down_absent(4) [OF c v n] by (simp add: drop_calls_def drop_database_sql_def)
  show "new_logs w (snd (down a w))
          = [(INFO, Dropping (dbname a)),
             (INFO, Executing (as_string (drop_database_sql (dbname a)))),
             (INFO, Dropped_successfully (dbname a))]"
    using down_absent(3) [OF c v n] .
next
  assume ok: "fst (down a w) = Inr ()"
  let ?w1 = "snd (down a w)"
  note s = down_success [OF ok]
  show "dbname a \<notin> databases (server ?w1)" using s(3) .
  show "fst (down a ?w1) = Inr ()" using down_absent(1) [OF s] .
  show "server (snd (down a ?w1)) = server ?w1" using down_absent(2) [OF s] .
  show "new_logs ?w1 (snd (down a ?w1))
          = [(INFO, Dropping (dbname a)),
             (INFO, Executing (as_string (drop_database_sql (dbname a)))),
             (INFO, Dropped_successfully (dbname a))]"
    using down_absent(3) [OF s] .
next
  show "new_kcalls k (delete_topics k topic_names) = [Delete_topics topic_names]"
    by (simp add: new_kcalls_def delete_topics_kcalls)
next
  assume h: "delete_ok (cluster k) \<and> topic_names \<noteq> []"
  let ?k1 = "delete_topics k topic_names"
  have c1: "cluster ?k1 = (cluster k)\<lparr>topics := topics (cluster k) - set topic_names\<rparr>"
    using h by (simp add: delete_topics_cluster)
  have ok1: "delete_ok (cluster ?k1)" using c1 h by simp
  show disj: "set topic_names \<inter> topics (cluster ?k1) = {}" using c1 by auto
  show "new_kcalls ?k1 (delete_topics ?k1 topic_names) = [Delete_topics topic_names]"
    by (simp add: new_kcalls_def delete_topics_kcalls)
  show "topics (cluster (delete_topics ?k1 topic_names)) = topics (cluster ?k1)"
    using delete_topics_cluster [OF ok1, of topic_names] disj by auto
  show "new_klogs ?k1 (delete_topics ?k1 topic_names) = [(WARNING, One_or_more_do_not_exist)]"
    using delete_topics_absent [OF ok1 _ disj] h by (simp add: new_klogs_def)
qed

theorem C5_teardown_of_absent_resource_witness:
  "pg_connect (server fresh_world) ''postgres''
   \<and> dbname demo_args \<noteq> []
   \<and> dbname demo_args \<notin> databases (server fresh_world)
   \<and> fst (down demo_args fresh_world) = Inr ()
   \<and> server (snd (down demo_args fresh_world)) = server fresh_world
   \<and> dbname demo_args \<in> databases (server existing_world)
   \<and> fst (down demo_args existing_world) = Inr ()
   \<and> dbname demo_args \<notin> databases (server (snd (down demo_args existing_world)))
   \<and> fst (down demo_args (snd (down demo_args existing_world))) = Inr ()
   \<and> delete_ok (cluster demo_kworld)
   \<and> new_klogs (delete_topics demo_kworld [''orders''])
        (delete_topics (delete_topics demo_kworld [''orders'']) [''orders''])
       = [(WARNING, One_or_more_do_not_exist)]"
proof -
  have a: "dbname demo_args \<notin> databases (server fresh_world)"
    and b: "dbname demo_args \<in> databases (server existing_world)"
    and v: "dbname demo_args \<noteq> []"
    by (simp_all add: demo_args_def existing_world_def fresh_world_def fresh_server_def)
  have d: "delete_ok (cluster demo_kworld)"
    by (simp add: demo_kworld_def demo_cluster_def)
  show ?thesis
    using C5_teardown_of_absent_resource
            [of fresh_world demo_args demo_kworld "[''orders'']"]
      C5_teardown_of_absent_resource
            [of existing_world demo_args demo_kworld "[''orders'']"]
      fresh_world_connect existing_world_down a b d v
    by simp
qed

section \<open>Exit codes\<close>

lemma apply_schema_exit:
  "(fst (apply_schema a w) = Inr () \<or> fst (apply_schema a w) = Inl 1)
   \<and> (fst (apply_schema a w) = Inr ()
        \<longleftrightarrow> last (logs (snd (apply_schema a w))) = (INFO, Applied_successfully))"
  by (cases rule: apply_schema_cases [where w=w and a=a])
     (simp_all add: apply_schema_no_file apply_schema_unreachable apply_schema_script_fails
        apply_schema_commit_fails apply_schema_committed)

lemma ensure_database_exit:
  "fst (ensure_database a w) = Inr ()
   \<or> (fst (ensure_database a w) = Inl 1
       \<and> last (logs (snd (ensure_database a w))) \<noteq> (INFO, Applied_successfully))"
  by (cases rule: ensure_database_cases [where w=w and a=a])
     (simp_all add: ensure_database_unreachable ensure_database_created
        ensure_database_duplicate ensure_database_fatal)

lemma up_exit:
  "(fst (up a w) = Inr () \<or> fst (up a w) = Inl 1)
   \<and> (fst (up a w) = Inr () \<longleftrightarrow> last (logs (snd (up a w))) = (INFO, Applied_successfully))"
proof (cases "fst (ensure_database a w)")
  case (Inl code)
  then have "up a w = ensure_database a w" by (rule up_ensure_failed)
  then show ?thesis using Inl ensure_database_exit [of a w] by auto
next
  case (Inr u)
  then have "up a w = apply_schema a (snd (ensure_database a w))" by (rule up_after_ensure)
  then show ?thesis using apply_schema_exit [of a "snd (ensure_database a w)"] by metis
qed

lemma down_exit:
  "(fst (down a w) = Inr () \<or> fst (down a w) = Inl 1)
   \<and> (fst (down a w) = Inr ()
        \<longleftrightarrow> last (logs (snd (down a w))) = (INFO, Dropped_successfully (dbname a)))"
proof (cases "pg_connect (server w) ''postgres''")
  case False
  then show ?thesis by (simp add: down_unreachable)
next
  case True
  then show ?thesis
    by (cases "pg_drop_database_if_exists (server w) ''postgres'' (dbname a)")
       (simp_all add: down_dropped down_fails)
qed

lemma main_db_fst:
  "fst (main_db action a w) = (case fst (if action = Up then up a w else down a w) of
      Inl code \<Rightarrow> code | Inr u \<Rightarrow> 0)"
  by (cases "if action = Up then up a w else down a w";
      cases "fst (if action = Up then up a w else down a w)")
     (simp_all add: main_db_def)

lemma main_db_snd:
  "snd (main_db action a w) = snd (if action = Up then up a w else down a w)"
  by (cases "if action = Up then up a w else down a w";
      cases "fst (if action = Up then up a w else down a w)")
     (simp_all add: main_db_def)

lemma up_unreachable:
  "\<not> pg_connect (server w) ''postgres'' \<Longrightarrow>
   fst (up a w) = Inl 1 \<and> calls (snd (up a w)) = calls w @ [Connect ''postgres'']
   \<and> server (snd (up a w)) = server w"
  by (simp add: up_def ensure_database_unreachable)

text \<open>
  C7, as stated, fails for the topic tool: with the credentials present and the
  cluster unreachable, the process logs the error and ends with exit code 0.
\<close>

theorem C7_topic_tool_exits_zero_when_unreachable:
  "\<not> available (cluster offline_kworld)
   \<and> fst (main_topics demo_env Create offline_kworld) = 0
   \<and> klogs (snd (main_topics demo_env Create offline_kworld)) = [(ERROR, An_error_occurred)]"
  by (simp add: main_topics_def offline_kworld_def demo_kworld_def demo_cluster_def
      demo_env_def truthy_def kcall_def klog_def Let_def)

text \<open>
  C7, amended. In the database tool, a failure to open the admin connection ends
  the process with exit code 1 after that single connection attempt, with the
  server unchanged; the exit code is 0 or 1, and it is 0 exactly when the last
  log line is the success message of the action. The topic tool exits with
  code 1 exactly when a credential variable is missing or empty, before any
  call; with the credentials present its exit code is always 0, and when the
  cluster cannot be reached it makes the single attempt to construct the client
  and logs one error line.
\<close>

theorem C7_exit_codes_of_both_tools:
  "(\<not> pg_connect (server w) ''postgres'' \<longrightarrow>
      fst (main_db action a w) = 1
      \<and> new_calls w (snd (main_db action a w)) = [Connect ''postgres'']
      \<and> server (snd (main_db action a w)) = server w)
   \<and> (fst (main_db action a w) = 0 \<or> fst (main_db action a w) = 1)
   \<and> (fst (main_db action a w) = 0 \<longleftrightarrow>
        last (logs (snd (main_db action a w)))
          = (INFO, if action = Up then Applied_successfully
                   else Dropped_successfully (dbname a)))
   \<and> (fst (main_topics env taction k) = 1 \<longleftrightarrow>
        \<not> (truthy (KAFKA_BOOTSTRAP_SERVERS env) \<and> truthy (KAFKA_USER env)
            \<and> truthy (KAFKA_PASSWORD env)))
   \<and> (fst (main_topics env taction k) = 0 \<or> fst (main_topics env taction k) = 1)
   \<and> (truthy (KAFKA_BOOTSTRAP_SERVERS env) \<and> truthy (KAFKA_USER env)
        \<and> truthy (KAFKA_PASSWORD env) \<and> \<not> available (cluster k) \<longrightarrow>
        fst (main_topics env taction k) = 0
        \<and> new_kcalls k (snd (main_topics env taction k)) = [New_client]
        \<and> new_klogs k (snd (main_topics env taction k)) = [(ERROR, An_error_occurred)])"
proof (intro conjI impI)
  assume nc: "\<not> pg_connect (server w) ''postgres''"
  show "fst (main_db action a w) = 1"
    using nc by (cases action) (simp_all add: main_db_fst main_db_snd up_unreachable down_unreachable)
  have "calls (snd (main_db action a w)) = calls w @ [Connect ''postgres'']"
    using nc by (cases action) (simp_all add: main_db_fst main_db_snd up_unreachable down_unreachable)
  then show "new_calls w (snd (main_db action a w)) = [Connect ''postgres'']"
    by (simp add: new_calls_def)
  show "server (snd (main_db action a w)) = server w"
    using nc by (cases action) (simp_all add: main_db_fst main_db_snd up_unreachable down_unreachable)
next
  show "fst (main_db action a w) = 0 \<or> fst (main_db action a w) = 1"
    using up_exit [of a w] down_exit [of a w]
    by (cases action) (auto simp: main_db_fst main_db_snd)
next
  show "fst (main_db action a w) = 0 \<longleftrightarrow>
        last (logs (snd (main_db action a w)))
          = (INFO, if action = Up then Applied_successfully
                   else Dropped_successfully (dbname a))"
    using up_exit [of a w] down_exit [of a w]
    by (cases action) (auto simp: main_db_fst main_db_snd)
next
  show "fst (main_topics env taction k) = 1 \<longleftrightarrow>
        \<not> (truthy (KAFKA_BOOTSTRAP_SERVERS env) \<and> truthy (KAFKA_USER env)
            \<and> truthy (KAFKA_PASSWORD env))"
    by (cases "create_topics (kcall New_client k) topics_list 1 1";
        cases "fst (create_topics (kcall New_client k) topics_list 1 1)")
       (simp_all add: main_topics_def Let_def)
next
  show "fst (main_topics env taction k) = 0 \<or> fst (main_topics env taction k) = 1"
    by (cases "create_topics (kcall New_client k) topics_list 1 1";
        cases "fst (create_topics (kcall New_client k) topics_list 1 1)")
       (simp_all add: main_topics_def Let_def)
next
  assume h: "truthy (KAFKA_BOOTSTRAP_SERVERS env) \<and> truthy (KAFKA_USER env)
        \<and> truthy (KAFKA_PASSWORD env) \<and> \<not> available (cluster k)"
  then have r: "main_topics env taction k
      = (0, klog ERROR An_error_occurred (kcall New_client k))"
    by (simp add: main_topics_def Let_def kcall_def)
  show "fst (main_topics env taction k) = 0" using r by simp
  show "new_kcalls k (snd (main_topics env taction k)) = [New_client]"
    using r by (simp add: new_kcalls_def kcall_def klog_def)
  show "new_klogs k (snd (main_topics env taction k)) = [(ERROR, An_error_occurred)]"
    using r by (simp add: new_klogs_def kcall_def klog_def)
qed

theorem C7_exit_codes_of_both_tools_witness:
  "\<not> pg_connect (server offline_world) ''postgres''
   \<and> fst (main_db Up demo_args offline_world) = 1
   \<and> new_calls offline_world (snd (main_db Up demo_args offline_world)) = [Connect ''postgres'']
   \<and> fst (main_db Up demo_args fresh_world) = 0
   \<and> truthy (KAFKA_BOOTSTRAP_SERVERS demo_env) \<and> truthy (KAFKA_USER demo_env)
   \<and> truthy (KAFKA_PASSWORD demo_env) \<and> \<not> available (cluster offline_kworld)
   \<and> fst (main_topics demo_env Delete offline_kworld) = 0
   \<and> new_kcalls offline_kworld (snd (main_topics demo_env Delete offline_kworld)) = [New_client]"
proof -
  have o: "\<not> pg_connect (server offline_world) ''postgres''"
    by (simp add: offline_world_def fresh_world_def fresh_server_def pg_connect_def)
  have e: "truthy (KAFKA_BOOTSTRAP_SERVERS demo_env) \<and> truthy (KAFKA_USER demo_env)
      \<and> truthy (KAFKA_PASSWORD demo_env)"
    by (simp add: demo_env_def truthy_def)
  have k: "\<not> available (cluster offline_kworld)"
    by (simp add: offline_kworld_def demo_kworld_def demo_cluster_def)
  have l: "last (logs (snd (main_db Up demo_args fresh_world))) = (INFO, Applied_successfully)"
    by (simp add: main_db_def up_def db_run_defs)
  show ?thesis
    using C7_exit_codes_of_both_tools [of offline_world Up demo_args demo_env Delete offline_kworld]
      C7_exit_codes_of_both_tools [of fresh_world Up demo_args demo_env Delete offline_kworld]
      o e k l
    by simp
qed

section \<open>Running the create path twice\<close>

lemma ensure_database_fst:
  "fst (ensure_database a w)
     = (if \<not> pg_connect (server w) ''postgres'' then Inl 1
        else case pg_create_database (server w) (dbname a) of
               Inr srv \<Rightarrow> Inr ()
             | Inl e \<Rightarrow> if e = DuplicateDatabase then Inr () else Inl 1)"
  by (cases rule: ensure_database_cases [where w=w and a=a])
     (simp_all add: ensure_database_unreachable ensure_database_created
        ensure_database_duplicate ensure_database_fatal)

lemma ensure_database_failed_server:
  "fst (ensure_database a w) = Inl code \<Longrightarrow> server (snd (ensure_database a w)) = server w"
  by (cases rule: ensure_database_cases [where w=w and a=a])
     (simp_all add: ensure_database_unreachable ensure_database_created
        ensure_database_duplicate ensure_database_fatal)

lemma ensure_database_permitted:
  "fst (ensure_database a w) = Inr () \<Longrightarrow>
   create_permitted (server (snd (ensure_database a w)))"
proof (cases rule: ensure_database_cases [where w=w and a=a])
  case unreachable
  assume "fst (ensure_database a w) = Inr ()"
  then show ?thesis using unreachable by (simp add: ensure_database_unreachable)
next
  case (created srv)
  then show ?thesis
    using pg_create_database_Inr [of "server w" "dbname a" srv]
    by (simp add: ensure_database_created)
next
  case duplicate
  then show ?thesis
    using pg_create_database_Inl [of "server w" "dbname a" DuplicateDatabase]
    by (simp add: ensure_database_duplicate)
next
  case (fatal e)
  assume "fst (ensure_database a w) = Inr ()"
  then show ?thesis using fatal by (simp add: ensure_database_fatal)
qed

lemma ensure_database_name:
  assumes "fst (ensure_database a w) = Inr ()"
  shows "dbname a \<noteq> []"
proof (cases rule: ensure_database_cases [where w=w and a=a])
  case unreachable
  then show ?thesis using assms by (simp add: ensure_database_unreachable)
next
  case (created srv)
  then show ?thesis using pg_create_database_Inr [of "server w" "dbname a" srv] by simp
next
  case duplicate
  then show ?thesis
    using pg_create_database_Inl [of "server w" "dbname a" DuplicateDatabase] by simp
next
  case (fatal e)
  then show ?thesis using assms by (simp add: ensure_database_fatal)
qed

lemma apply_schema_frame:
  "databases (server (snd (apply_schema a w))) = databases (server w)
   \<and> reachable (server (snd (apply_schema a w))) = reachable (server w)
   \<and> create_permitted (server (snd (apply_schema a w))) = create_permitted (server w)
   \<and> sql_file (snd (apply_schema a w)) = sql_file w"
  by (cases rule: apply_schema_cases [where w=w and a=a])
     (simp_all add: apply_schema_no_file apply_schema_unreachable apply_schema_script_fails
        apply_schema_commit_fails apply_schema_committed settled_fields)

lemma apply_schema_executes:
  assumes "sql_file w = Some script" and "pg_connect (server w) (dbname a)"
  shows "text_statements (new_calls w (snd (apply_schema a w))) = [cleaned_sql script]"
  using assms
  by (cases rule: apply_schema_cases [where w=w and a=a])
     (simp_all add: apply_schema_script_fails apply_schema_commit_fails apply_schema_committed
        schema_calls_def new_calls_def)

lemma up_databases:
  "databases (server (snd (up a w)))
     = (if fst (ensure_database a w) = Inr () then insert (dbname a) (databases (server w))
        else databases (server w))"
proof (cases "fst (ensure_database a w)")
  case (Inl code)
  then have "up a w = ensure_database a w" by (rule up_ensure_failed)
  then show ?thesis using Inl ensure_database_failed_server [OF Inl] by simp
next
  case (Inr u)
  then have ok: "fst (ensure_database a w) = Inr ()" by simp
  have "up a w = apply_schema a (snd (ensure_database a w))" using ok by (rule up_after_ensure)
  then show ?thesis
    using ok ensure_database_success [OF ok] apply_schema_frame [of a "snd (ensure_database a w)"]
    by simp
qed

lemma up_failed_at_step1:
  assumes "fst (ensure_database a w) = Inl code"
  shows "fst (ensure_database a (snd (up a w))) = fst (ensure_database a w)"
proof -
  have "up a w = ensure_database a w" using assms by (rule up_ensure_failed)
  then have "server (snd (up a w)) = server w"
    using ensure_database_failed_server [OF assms] by simp
  then show ?thesis by (simp add: ensure_database_fst)
qed

lemma up_twice_databases:
  "databases (server (snd (up a (snd (up a w))))) = databases (server (snd (up a w)))"
proof (cases "fst (ensure_database a w)")
  case (Inl code)
  then show ?thesis
    using up_failed_at_step1 [OF Inl] by (simp add: up_databases [of a "snd (up a w)"])
next
  case (Inr u)
  then have "dbname a \<in> databases (server (snd (up a w)))"
    by (simp add: up_databases)
  then show ?thesis
    by (simp add: up_databases [of a "snd (up a w)"] insert_absorb)
qed

lemma up_success:
  assumes "fst (up a w) = Inr ()"
  shows "pg_connect (server (snd (up a w))) ''postgres''"
    and "pg_connect (server (snd (up a w))) (dbname a)"
    and "pg_create_database (server (snd (up a w))) (dbname a) = Inl DuplicateDatabase"
    and "sql_file (snd (up a w)) = sql_file w"
proof -
  let ?w1 = "snd (ensure_database a w)"
  have ok: "fst (ensure_database a w) = Inr ()"
  proof (cases "fst (ensure_database a w)")
    case (Inl code)
    then have "up a w = ensure_database a w" by (rule up_ensure_failed)
    then show ?thesis using assms Inl by simp
  next
    case (Inr u)
    then show ?thesis by simp
  qed
  have up: "up a w = apply_schema a ?w1" using ok by (rule up_after_ensure)
  note ens = ensure_database_success [OF ok]
  note perm = ensure_database_permitted [OF ok]
  note fr = apply_schema_frame [of a ?w1]
  have pg: "''postgres'' \<in> databases (server ?w1)"
    using ens by (simp add: pg_connect_def)
  show "pg_connect (server (snd (up a w))) ''postgres''"
    using up fr ens pg by (simp add: pg_connect_def)
  show "pg_connect (server (snd (up a w))) (dbname a)"
    using up fr ens by (simp add: pg_connect_def)
  show "pg_create_database (server (snd (up a w))) (dbname a) = Inl DuplicateDatabase"
    using up fr ens perm ensure_database_name [OF ok] by (simp add: pg_create_database_def)
  show "sql_file (snd (up a w)) = sql_file w"
    using up fr ens by simp
qed

lemma up_second_run:
  assumes "fst (up a w) = Inr ()" and "sql_file w = Some script"
  shows "composed_statements (new_calls (snd (up a w)) (snd (up a (snd (up a w)))))
           = [create_database_sql (dbname a)]"
    and "text_statements (new_calls (snd (up a w)) (snd (up a (snd (up a w)))))
           = [cleaned_sql script]"
proof -
  let ?w1 = "snd (up a w)"
  let ?e = "snd (ensure_database a ?w1)"
  note s = up_success [OF assms(1)]
  show "composed_statements (new_calls ?w1 (snd (up a ?w1))) = [create_database_sql (dbname a)]"
    using up_statements [of ?w1 a] s(1) by simp
  have ens: "ensure_database a ?w1 =
     (Inr (), ?w1\<lparr>calls := calls ?w1 @ admin_calls a,
               logs := logs ?w1 @ [(INFO, Ensuring_exists (dbname a)),
                                 (INFO, Already_exists_skipping (dbname a))]\<rparr>)"
    using s(1) s(3) by (rule ensure_database_duplicate)
  then have up2: "up a ?w1 = apply_schema a ?e"
    by (intro up_after_ensure [of a ?w1 "()"]) simp
  have fl: "sql_file ?e = Some script" using ens s(4) assms(2) by simp
  have conn: "pg_connect (server ?e) (dbname a)" using ens s(2) by simp
  have ce: "calls ?e = calls ?w1 @ admin_calls a" using ens by simp
  obtain ds where ds: "calls (snd (apply_schema a ?e)) = calls ?e @ ds"
    using apply_schema_calls_prefix [of a ?e] by blast
  have "new_calls ?w1 (snd (up a ?w1)) = new_calls ?w1 ?e @ new_calls ?e (snd (apply_schema a ?e))"
    using up2 new_calls_trans [OF ce ds] by simp
  moreover have "new_calls ?w1 ?e = admin_calls a" using ce by (simp add: new_calls_def)
  ultimately show "text_statements (new_calls ?w1 (snd (up a ?w1))) = [cleaned_sql script]"
    using apply_schema_executes [OF fl conn]
    by (simp add: text_statements_append admin_calls_def)
qed

lemma kafka_create_topics_flags:
  "list_ok (snd (kafka_create_topics c ts)) = list_ok c
   \<and> create_ok (snd (kafka_create_topics c ts)) = create_ok c"
  by (simp add: kafka_create_topics_def)

lemma kafka_create_topics_refused:
  "\<not> create_ok c \<Longrightarrow> snd (kafka_create_topics c ts) = c"
  by (simp add: kafka_create_topics_def)

lemma create_topics_cluster:
  "cluster (snd (create_topics w ns np rf))
     = (if list_ok (cluster w) \<and> create_ok (cluster w)
        then (cluster w)\<lparr>topics := topics (cluster w) \<union> set ns\<rparr>
        else cluster w)"
proof (cases "list_ok (cluster w)")
  case False
  then show ?thesis by (simp add: create_topics_list_fails)
next
  case l: True
  let ?missing = "filter (\<lambda>n. n \<notin> topics (cluster w)) ns"
  have nm: "set (map name (map (\<lambda>n. NewTopic n np rf) ?missing)) = set ?missing"
    by (simp add: comp_def)
  show ?thesis
  proof (cases "?missing = []")
    case True
    then have sub: "set ns \<subseteq> topics (cluster w)"
      by (auto simp: filter_empty_conv)
    have "topics (cluster w) \<union> set ns = topics (cluster w)" using sub by auto
    then show ?thesis
      using create_topics_none_missing [OF l True, of np rf] by simp
  next
    case False
    have c: "cluster (snd (create_topics w ns np rf))
        = snd (kafka_create_topics (cluster w) (map (\<lambda>n. NewTopic n np rf) ?missing))"
      using create_topics_some_missing [OF l False, of np rf] by blast
    show ?thesis
    proof (cases "create_ok (cluster w)")
      case False
      then show ?thesis using c l by (simp add: kafka_create_topics_refused)
    next
      case True
      have "topics (cluster w) \<union> set ?missing = topics (cluster w) \<union> set ns" by auto
      then show ?thesis
        using c l True nm by (simp add: kafka_create_topics_def)
    qed
  qed
qed

lemma create_topics_twice_cluster:
  "cluster (snd (create_topics (snd (create_topics w ns np rf)) ns np' rf'))
     = cluster (snd (create_topics w ns np rf))"
  by (simp add: create_topics_cluster Un_assoc)

lemma create_topics_second_run:
  assumes "list_ok (cluster w)" and "create_ok (cluster w)"
  shows "new_kcalls (snd (create_topics w ns np rf))
           (snd (create_topics (snd (create_topics w ns np rf)) ns np rf)) = [List_topics]"
proof -
  let ?w1 = "snd (create_topics w ns np rf)"
  have c1: "cluster ?w1 = (cluster w)\<lparr>topics := topics (cluster w) \<union> set ns\<rparr>"
    using assms by (simp add: create_topics_cluster)
  have l1: "list_ok (cluster ?w1)" using c1 assms by simp
  have m: "filter (\<lambda>n. n \<notin> topics (cluster ?w1)) ns = []"
    using c1 by (simp add: filter_empty_conv)
  show ?thesis
    using create_topics_none_missing [OF l1 m, of np rf] by (simp add: new_kcalls_def)
qed

lemma fresh_world_up: "fst (up demo_args fresh_world) = Inr ()"
  by (simp add: up_def db_run_defs)

lemma fresh_world_content:
  "content (server (snd (up demo_args fresh_world))) ''ecommerce''
     = [''INSERT INTO t VALUES (1);'']"
  by (simp add: up_def db_run_defs cleaned_demo_script)

lemma fresh_world_content_twice:
  "content (server (snd (up demo_args (snd (up demo_args fresh_world))))) ''ecommerce''
     = [''INSERT INTO t VALUES (1);'', ''INSERT INTO t VALUES (1);'']"
  by (simp add: up_def db_run_defs cleaned_demo_script)

text \<open>
  C1, as stated, fails for the database tool. On a fresh server, a first \<open>up\<close>
  creates the database \<open>ecommerce\<close> and commits the script. The second \<open>up\<close>
  issues the create statement for the database that is now present and executes
  the script again, and on a server that accepts the script a second time the
  content of the database after two runs differs from its content after one.
\<close>

theorem C1_second_up_creates_and_executes_again:
  "fst (up demo_args fresh_world) = Inr ()
   \<and> ''ecommerce'' \<in> databases (server (snd (up demo_args fresh_world)))
   \<and> composed_statements (new_calls (snd (up demo_args fresh_world))
        (snd (up demo_args (snd (up demo_args fresh_world)))))
       = [create_database_sql ''ecommerce'']
   \<and> text_statements (new_calls (snd (up demo_args fresh_world))
        (snd (up demo_args (snd (up demo_args fresh_world)))))
       = [''INSERT INTO t VALUES (1);'']
   \<and> content (server (snd (up demo_args (snd (up demo_args fresh_world))))) ''ecommerce''
       \<noteq> content (server (snd (up demo_args fresh_world))) ''ecommerce''"
proof -
  have f: "sql_file fresh_world = Some demo_script" by (simp add: fresh_world_def)
  have d: "''ecommerce'' \<in> databases (server (snd (up demo_args fresh_world)))"
    using up_success(2) [OF fresh_world_up] by (simp add: pg_connect_def demo_dbname)
  show ?thesis
    using fresh_world_up d up_second_run [OF fresh_world_up f]
    by (simp add: fresh_world_content fresh_world_content_twice demo_dbname cleaned_demo_script)
qed

text \<open>
  C1, amended. Running \<open>create_topics\<close> twice in succession leaves the same set
  of topics as running it once, and on a cluster that serves the requests the
  second run makes no create request: its only call is the listing. Running
  \<open>up\<close> twice leaves the same set of databases as running it once, but the
  second run repeats the mutating calls of the first: after a first run that
  succeeded, it executes the create statement for the database again and
  executes the cleaned script again.
\<close>

theorem C1_create_path_twice:
  "topics (cluster (snd (create_topics (snd (create_topics k ns np rf)) ns np rf)))
     = topics (cluster (snd (create_topics k ns np rf)))
   \<and> (list_ok (cluster k) \<and> create_ok (cluster k) \<longrightarrow>
        new_kcalls (snd (create_topics k ns np rf))
          (snd (create_topics (snd (create_topics k ns np rf)) ns np rf)) = [List_topics])
   \<and> databases (server (snd (up a (snd (up a w))))) = databases (server (snd (up a w)))
   \<and> (\<forall>script. fst (up a w) = Inr () \<and> sql_file w = Some script \<longrightarrow>
        composed_statements (new_calls (snd (up a w)) (snd (up a (snd (up a w)))))
          = [create_database_sql (dbname a)]
        \<and> text_statements (new_calls (snd (up a w)) (snd (up a (snd (up a w)))))
          = [cleaned_sql script])"
proof (intro conjI impI allI)
  show "topics (cluster (snd (create_topics (snd (create_topics k ns np rf)) ns np rf)))
     = topics (cluster (snd (create_topics k ns np rf)))"
    by (simp only: create_topics_twice_cluster)
next
  assume "list_ok (cluster k) \<and> create_ok (cluster k)"
  then show "new_kcalls (snd (create_topics k ns np rf))
          (snd (create_topics (snd (create_topics k ns np rf)) ns np rf)) = [List_topics]"
    using create_topics_second_run [of k ns np rf] by simp
next
  show "databases (server (snd (up a (snd (up a w))))) = databases (server (snd (up a w)))"
    by (rule up_twice_databases)
next
  fix script
  assume h: "fst (up a w) = Inr () \<and> sql_file w = Some script"
  then have ok: "fst (up a w) = Inr ()" and f: "sql_file w = Some script" by simp_all
  show "composed_statements (new_calls (snd (up a w)) (snd (up a (snd (up a w)))))
          = [create_database_sql (dbname a)]"
    using up_second_run(1) [OF ok f] .
  show "text_statements (new_calls (snd (up a w)) (snd (up a (snd (up a w)))))
          = [cleaned_sql script]"
    using up_second_run(2) [OF ok f] .
qed

theorem C1_create_path_twice_witness:
  "list_ok (cluster demo_kworld) \<and> create_ok (cluster demo_kworld)
   \<and> new_kcalls (snd (create_topics demo_kworld [''orders'', ''inventory''] 1 1))
        (snd (create_topics (snd (create_topics demo_kworld [''orders'', ''inventory''] 1 1))
               [''orders'', ''inventory''] 1 1))
       = [List_topics]
   \<and> fst (up demo_args fresh_world) = Inr ()
   \<and> sql_file fresh_world = Some demo_script
   \<and> databases (server (snd (up demo_args (snd (up demo_args fresh_world)))))
       = databases (server (snd (up demo_args fresh_world)))
   \<and> text_statements (new_calls (snd (up demo_args fresh_world))
        (snd (up demo_args (snd (up demo_args fresh_world)))))
       = [cleaned_sql demo_script]"
proof -
  have l: "list_ok (cluster demo_kworld) \<and> create_ok (cluster demo_kworld)"
    by (simp add: demo_kworld_def demo_cluster_def)
  have f: "sql_file fresh_world = Some demo_script" by (simp add: fresh_world_def)
  show ?thesis
    using C1_create_path_twice
            [where k = demo_kworld and ns = "[''orders'', ''inventory'']" and np = 1 and rf = 1
               and a = demo_args and w = fresh_world]
      l f fresh_world_up
    by blast
qed

end
